theory Spec2Isabelle
  imports Main
begin

section \<open>The function generator of the Magic Sorting System (generate.js)\<close>

text \<open>
  The script reads a configuration, walks its groups and their items once, and writes one
  routing file per accepted group, one per item, and the dispatcher \<^verbatim>\<open>sort.mcfunction\<close>.
  The model threads the module-level variables of the script (\<^verbatim>\<open>sort_lines\<close>,
  \<^verbatim>\<open>total_items\<close>, the three tables of identifiers already seen) through the two
  \<^verbatim>\<open>forEach\<close> loops as a record. Calls of \<^verbatim>\<open>fs.writeFileSync\<close> that succeed and calls of
  \<^verbatim>\<open>console.error\<close> are appended to two logs in that record, in the order of the calls.

  The script runs in an environment: the directory it lies in, and a file system that takes a
  write to a path or refuses it. No call of \<^verbatim>\<open>fs.writeFileSync\<close> stands in a \<^verbatim>\<open>try\<close>, so a
  refused write throws out of both loops and ends the run; the record keeps the exception, and
  everything written before it stays written.

  The model starts at line 24, with the directories of lines 20 and 21 in place: a run in
  which one of these two lines throws ends before it writes anything. The progress messages
  of \<^verbatim>\<open>console.log\<close> and the fixed files written after line 114 are not modelled.
\<close>

subsection \<open>JavaScript values and operators\<close>

text \<open>A property that may be missing in config.json is an option; \<open>None\<close> is \<^verbatim>\<open>undefined\<close>.\<close>

definition newline :: char where
  "newline = CHR 0x0A"

text \<open>String concatenation with \<^verbatim>\<open>undefined\<close> yields the text \<^verbatim>\<open>undefined\<close>; the same
  conversion gives the property key of \<^verbatim>\<open>x in obj\<close> and \<^verbatim>\<open>obj[x] = 1\<close>.\<close>

definition js_string :: "string option \<Rightarrow> string" where
  "js_string v = (case v of None \<Rightarrow> ''undefined'' | Some s \<Rightarrow> s)"

text \<open>Truthiness of an optional string: \<^verbatim>\<open>undefined\<close> and the empty string are falsy.\<close>

definition truthy :: "string option \<Rightarrow> bool" where
  "truthy v = (case v of None \<Rightarrow> False | Some s \<Rightarrow> s \<noteq> [])"

text \<open>The property names that every object literal inherits from \<^verbatim>\<open>Object.prototype\<close>.
  The operator \<^verbatim>\<open>in\<close> follows the prototype chain, so it answers true for these names on
  the empty object \<^verbatim>\<open>{}\<close> as well.\<close>

definition object_prototype_keys :: "string list" where
  "object_prototype_keys =
     [''constructor'', ''__defineGetter__'', ''__defineSetter__'', ''hasOwnProperty'',
      ''__lookupGetter__'', ''__lookupSetter__'', ''isPrototypeOf'', ''propertyIsEnumerable'',
      ''toString'', ''valueOf'', ''__proto__'', ''toLocaleString'']"

definition inherited :: "string \<Rightarrow> bool" where
  "inherited k = (k \<in> set object_prototype_keys)"

text \<open>An object used as a table: its own properties, each set to 1 by the script.\<close>

type_synonym js_object = "string \<rightharpoonup> nat"

definition js_in :: "string \<Rightarrow> js_object \<Rightarrow> bool" where
  "js_in k obj = (obj k \<noteq> None \<or> inherited k)"

text \<open>\<^verbatim>\<open>s.split(c)\<close> for a one-character separator: the pieces between the separators,
  at least one piece.\<close>

fun split :: "char \<Rightarrow> string \<Rightarrow> string list" where
  "split c [] = [[]]"
| "split c (x # xs) =
     (if x = c then [] # split c xs
      else (case split c xs of
              [] \<Rightarrow> [[x]]
            | s # ss \<Rightarrow> (x # s) # ss))"

text \<open>\<^verbatim>\<open>arr[1]\<close>: the second element, \<^verbatim>\<open>undefined\<close> when there is none.\<close>

fun index1 :: "'a list \<Rightarrow> 'a option" where
  "index1 (a # b # rest) = Some b"
| "index1 rest = None"

text \<open>\<^verbatim>\<open>arr.join(sep)\<close>.\<close>

fun join :: "string \<Rightarrow> string list \<Rightarrow> string" where
  "join sep [] = []"
| "join sep [s] = s"
| "join sep (s # t # ts) = s @ sep @ join sep (t # ts)"

text \<open>The class \<^verbatim>\<open>\W\<close> of a regular expression without the unicode flag is the complement of
  \<^verbatim>\<open>[A-Za-z0-9_]\<close>; \<^verbatim>\<open>replace(/\W+/g, '')\<close> deletes every such character.\<close>

definition word_char :: "char \<Rightarrow> bool" where
  "word_char c =
     (let n = (of_char c :: nat)
      in (65 \<le> n \<and> n \<le> 90) \<or> (97 \<le> n \<and> n \<le> 122) \<or> (48 \<le> n \<and> n \<le> 57) \<or> n = 95)"

definition strip_non_word :: "string \<Rightarrow> string" where
  "strip_non_word s = filter word_char s"

text \<open>A number in a string concatenation: its decimal digits.\<close>

definition digit :: "nat \<Rightarrow> char" where
  "digit d = char_of (48 + d)"

fun decimal :: "nat \<Rightarrow> string" where
  "decimal n = (if n < 10 then [digit n] else decimal (n div 10) @ [digit (n mod 10)])"

declare decimal.simps [simp del]

subsection \<open>Paths and the environment of a run\<close>

text \<open>An absolute path, as the list of its segments. The module \<^verbatim>\<open>path\<close> is taken in its POSIX
  form: \<^verbatim>\<open>/\<close> is the only separator.\<close>

type_synonym path = "string list"

text \<open>Normalisation of an absolute path, segment by segment, with the segments kept so far in
  reverse: an empty segment and \<^verbatim>\<open>.\<close> are dropped, \<^verbatim>\<open>..\<close> removes the segment before it, and
  does nothing at the root.\<close>

fun posix_normalize :: "string list \<Rightarrow> string list \<Rightarrow> path" where
  "posix_normalize res [] = rev res"
| "posix_normalize res (s # ss) =
     (if s = [] \<or> s = ''.'' then posix_normalize res ss
      else if s = ''..'' then posix_normalize (tl res) ss
      else posix_normalize (s # res) ss)"

text \<open>\<^verbatim>\<open>Path.join(dir, name)\<close> for an absolute \<open>dir\<close>: the two are put together with a separator
  and the result is normalised.\<close>

definition path_join :: "path \<Rightarrow> string \<Rightarrow> path" where
  "path_join dir name = posix_normalize [] (dir @ split CHR ''/'' name)"

text \<open>What a run finds around it: \<^verbatim>\<open>__dirname\<close>, and for every path whether
  \<^verbatim>\<open>fs.writeFileSync\<close> succeeds on it. A run creates no directory after line 21 and removes
  nothing, so this is taken as fixed for the run. Why a write is refused (a directory on the
  way is missing, the name is too long, the user may not write) is left to the environment.\<close>

record environment =
  dirname :: path
  writable :: "path \<Rightarrow> bool"

text \<open>Lines 13 and 14: \<^verbatim>\<open>Path.resolve("../data/mss/function")\<close> with the working directory set
  to \<^verbatim>\<open>__dirname\<close>.\<close>

definition func_dir :: "environment \<Rightarrow> path" where
  "func_dir env = posix_normalize [] (dirname env @ [''..'', ''data'', ''mss'', ''function''])"

subsection \<open>The configuration\<close>

record group =
  group_name :: string
  items :: "string list option"
  item_frame :: "string option"
  fallback :: "string option"

record config =
  groups :: "group list"
  effects :: "string list option"
  final_fallback :: "string option"
  group_name_in_frame :: "string option"
  item_name_in_frame :: "string option"

subsection \<open>The state of a run\<close>

text \<open>A call of \<^verbatim>\<open>fs.writeFileSync\<close> that succeeded. The field \<open>origin\<close> records which call of
  the script made it (line 90, line 96 or line 114); the script itself keeps no such mark.\<close>

datatype origin = GroupFile | ItemFile | DispatcherFile

record artifact =
  origin :: origin
  filename :: path
  content :: string

text \<open>The four messages of \<^verbatim>\<open>console.error\<close>, each with the identifier it prints.\<close>

datatype error =
    DuplicateGroupId string
  | DuplicateItemFrameId string
  | DuplicateItemId string
  | InvalidGroup string

definition error_message :: "error \<Rightarrow> string" where
  "error_message e =
     (case e of
        DuplicateGroupId g \<Rightarrow> ''ERROR: Duplicate Group ID: '' @ g
      | DuplicateItemFrameId t \<Rightarrow> ''ERROR: Duplicate Item Frame ID: '' @ t
      | DuplicateItemId i \<Rightarrow> ''ERROR: Duplicate Item ID: '' @ i
      | InvalidGroup g \<Rightarrow> ''ERROR: Invalid group, skipping: '' @ g)"

text \<open>The exception of a refused write, with the path it was refused on.\<close>

datatype exception = WriteFailed path

record state =
  sort_lines :: "string list"
  total_items :: nat
  all_item_ids :: js_object
  all_group_ids :: js_object
  all_item_frame_ids :: js_object
  files :: "artifact list"
  errors :: "error list"
  thrown :: "exception option"

subsection \<open>Lines 24 to 42: the head of the dispatcher\<close>

definition group_names :: "config \<Rightarrow> string list" where
  "group_names cfg = map group_name (groups cfg)"

definition effect_lines :: "config \<Rightarrow> string list" where
  "effect_lines cfg =
     (case effects cfg of
        None \<Rightarrow> []
      | Some es \<Rightarrow>
          map (\<lambda>effect.
                 ''execute at @s unless score #mss_cooldown mss_cooldown matches 1 run '' @ effect)
              es)"

definition header_lines :: "config \<Rightarrow> string list" where
  "header_lines cfg =
     [''# Magic Sorting System v2.0 -- Sort Single Item'',
      ''# Expects input @s from previous execute / run'',
      ''# '' @ decimal (length (group_names cfg)) @ '' Groups: '' @ join '', '' (group_names cfg),
      '''']
     @ effect_lines cfg
     @ [''scoreboard players set #mss_cooldown mss_cooldown 1'', '''']"

text \<open>Lines 24 to 50: every run creates its variables anew.\<close>

definition initial_state :: "config \<Rightarrow> state" where
  "initial_state cfg =
     \<lparr>sort_lines = header_lines cfg, total_items = 0,
      all_item_ids = Map.empty, all_group_ids = Map.empty, all_item_frame_ids = Map.empty,
      files = [], errors = [], thrown = None\<rparr>"

subsection \<open>Lines 52 to 68: write_sort_file\<close>

definition name_selector :: "string option \<Rightarrow> string" where
  \<open>name_selector name =
     (if truthy name
      then '',components:{"minecraft:custom_name":'"'' @ js_string name @ ''"'}''
      else '''')\<close>

definition entity_match_selector :: "string \<Rightarrow> string option \<Rightarrow> string" where
  \<open>entity_match_selector target name =
     ''@e[type=minecraft:item_frame,nbt={Item:{id:"'' @ target @ ''"'' @ name_selector name
     @ ''}},distance=..128]''\<close>

definition entity_dest_selector :: "string \<Rightarrow> string option \<Rightarrow> string" where
  \<open>entity_dest_selector target name =
     ''@e[limit=1,sort=nearest,type=minecraft:item_frame,nbt={Item:{id:"'' @ target @ ''"''
     @ name_selector name @ ''}},distance=..128]''\<close>

definition sort_file_content :: "string \<Rightarrow> string \<Rightarrow> string option \<Rightarrow> string" where
  "sort_file_content fallback_action target name =
     ''execute as @s if entity '' @ entity_match_selector target name
     @ '' run teleport @s '' @ entity_dest_selector target name @ [newline]
     @ ''execute as @s unless entity '' @ entity_match_selector target name
     @ '' run '' @ fallback_action @ [newline]"

text \<open>\<^verbatim>\<open>fs.writeFileSync(filename, text)\<close>: the file is written, or the call throws.\<close>

definition writeFileSync :: "environment \<Rightarrow> artifact \<Rightarrow> state \<Rightarrow> exception + state" where
  "writeFileSync env a st =
     (if writable env (filename a) then Inr (st\<lparr>files := files st @ [a]\<rparr>)
      else Inl (WriteFailed (filename a)))"

definition write_sort_file ::
  "environment \<Rightarrow> origin \<Rightarrow> path \<Rightarrow> string \<Rightarrow> string \<Rightarrow> string option \<Rightarrow> state
     \<Rightarrow> exception + state"
  where
  "write_sort_file env orig file fallback_action target name st =
     writeFileSync env
       \<lparr>origin = orig, filename = file,
        content = sort_file_content fallback_action target name\<rparr> st"

text \<open>An exception that nothing catches ends the run; the state keeps it.\<close>

definition uncaught :: "exception \<Rightarrow> state \<Rightarrow> state" where
  "uncaught e st = st\<lparr>thrown := Some e\<rparr>"

subsection \<open>Lines 93 to 107: one item of a group\<close>

definition item_name :: "string \<Rightarrow> string option" where
  "item_name item_id = index1 (split CHR '':'' item_id)"

definition item_func_file :: "environment \<Rightarrow> string \<Rightarrow> path" where
  "item_func_file env item_id =
     path_join (func_dir env) (''sort_item_'' @ js_string (item_name item_id) @ ''.mcfunction'')"

definition dispatch_line :: "string \<Rightarrow> string" where
  \<open>dispatch_line item_id =
     ''execute as @s if entity @s[type=item,nbt={Item:{id:"'' @ item_id
     @ ''"}}] run function mss:sort_item_'' @ js_string (item_name item_id)\<close>

text \<open>When the write of line 96 throws, lines 98 to 106 do not run.\<close>

definition process_item :: "environment \<Rightarrow> config \<Rightarrow> string \<Rightarrow> string \<Rightarrow> state \<Rightarrow> state" where
  "process_item env cfg group_id item_id st =
     (case write_sort_file env ItemFile (item_func_file env item_id)
             (''function mss:sort_'' @ group_id) item_id (item_name_in_frame cfg) st of
        Inl e \<Rightarrow> uncaught e st
      | Inr st1 \<Rightarrow>
          (let st2 = (if js_in item_id (all_item_ids st1)
                      then st1\<lparr>errors := errors st1 @ [DuplicateItemId item_id]\<rparr>
                      else st1);
               st3 = st2\<lparr>all_item_ids := (all_item_ids st2)(item_id \<mapsto> 1)\<rparr>;
               st4 = st3\<lparr>sort_lines := sort_lines st3 @ [dispatch_line item_id]\<rparr>
           in st4\<lparr>total_items := total_items st4 + 1\<rparr>))"

text \<open>The loop over the items: once an exception is thrown, no further item is processed.\<close>

fun items_forEach ::
  "environment \<Rightarrow> config \<Rightarrow> string \<Rightarrow> string list \<Rightarrow> state \<Rightarrow> state" where
  "items_forEach env cfg group_id [] st = st"
| "items_forEach env cfg group_id (item_id # rest) st =
     (if thrown st \<noteq> None then st
      else items_forEach env cfg group_id rest (process_item env cfg group_id item_id st))"

subsection \<open>Lines 70 to 112: one group\<close>

definition group_id_of :: "group \<Rightarrow> string" where
  "group_id_of g = strip_non_word (group_name g)"

definition target_key :: "group \<Rightarrow> string" where
  "target_key g = js_string (item_frame g)"

definition group_func_file :: "environment \<Rightarrow> string \<Rightarrow> path" where
  "group_func_file env group_id =
     path_join (func_dir env) (''sort_'' @ group_id @ ''.mcfunction'')"

definition group_fallback :: "config \<Rightarrow> group \<Rightarrow> string" where
  "group_fallback cfg g =
     (if truthy (fallback g) then ''function mss:sort_'' @ js_string (fallback g)
      else js_string (final_fallback cfg))"

text \<open>The test of line 87: \<^verbatim>\<open>items && items.length && target\<close>.\<close>

definition complete :: "group \<Rightarrow> bool" where
  "complete g =
     ((case items g of None \<Rightarrow> False | Some is \<Rightarrow> is \<noteq> []) \<and> truthy (item_frame g))"

definition items_of :: "group \<Rightarrow> string list" where
  "items_of g = (case items g of None \<Rightarrow> [] | Some is \<Rightarrow> is)"

definition process_group :: "environment \<Rightarrow> config \<Rightarrow> group \<Rightarrow> state \<Rightarrow> state" where
  "process_group env cfg g st =
     (let group_id = group_id_of g
      in if js_in group_id (all_group_ids st)
         then st\<lparr>errors := errors st @ [DuplicateGroupId group_id]\<rparr>
         else
           (let st1 = st\<lparr>all_group_ids := (all_group_ids st)(group_id \<mapsto> 1)\<rparr>
            in if js_in (target_key g) (all_item_frame_ids st1)
               then st1\<lparr>errors := errors st1 @ [DuplicateItemFrameId (target_key g)]\<rparr>
               else
                 (let st2 = st1\<lparr>all_item_frame_ids :=
                                  (all_item_frame_ids st1)(target_key g \<mapsto> 1)\<rparr>
                  in if complete g
                     then
                       (case write_sort_file env GroupFile (group_func_file env group_id)
                               (group_fallback cfg g) (target_key g)
                               (group_name_in_frame cfg) st2 of
                          Inl e \<Rightarrow> uncaught e st2
                        | Inr st3 \<Rightarrow> items_forEach env cfg group_id (items_of g) st3)
                     else st2\<lparr>errors := errors st2 @ [InvalidGroup group_id]\<rparr>)))"

text \<open>The loop over the groups: once an exception is thrown, no further group is processed.\<close>

fun groups_forEach :: "environment \<Rightarrow> config \<Rightarrow> group list \<Rightarrow> state \<Rightarrow> state" where
  "groups_forEach env cfg [] st = st"
| "groups_forEach env cfg (g # rest) st =
     (if thrown st \<noteq> None then st
      else groups_forEach env cfg rest (process_group env cfg g st))"

subsection \<open>Line 114: the dispatcher file, and the whole run\<close>

definition sort_func_file :: "environment \<Rightarrow> path" where
  "sort_func_file env = path_join (func_dir env) ''sort.mcfunction''"

definition dispatcher_artifact :: "environment \<Rightarrow> state \<Rightarrow> artifact" where
  "dispatcher_artifact env st =
     \<lparr>origin = DispatcherFile, filename = sort_func_file env,
      content = join [newline] (sort_lines st) @ [newline]\<rparr>"

text \<open>Line 114 is reached when nothing was thrown before.\<close>

definition write_dispatcher :: "environment \<Rightarrow> state \<Rightarrow> state" where
  "write_dispatcher env st =
     (if thrown st \<noteq> None then st
      else (case writeFileSync env (dispatcher_artifact env st) st of
              Inl e \<Rightarrow> uncaught e st
            | Inr st1 \<Rightarrow> st1))"

definition compile :: "environment \<Rightarrow> config \<Rightarrow> state" where
  "compile env cfg =
     write_dispatcher env (groups_forEach env cfg (groups cfg) (initial_state cfg))"

subsection \<open>What a step writes, stated apart from the loops\<close>

definition item_artifact :: "environment \<Rightarrow> config \<Rightarrow> string \<Rightarrow> string \<Rightarrow> artifact" where
  "item_artifact env cfg group_id item_id =
     \<lparr>origin = ItemFile, filename = item_func_file env item_id,
      content = sort_file_content (''function mss:sort_'' @ group_id) item_id
                  (item_name_in_frame cfg)\<rparr>"

definition group_artifact :: "environment \<Rightarrow> config \<Rightarrow> group \<Rightarrow> artifact" where
  "group_artifact env cfg g =
     \<lparr>origin = GroupFile, filename = group_func_file env (group_id_of g),
      content = sort_file_content (group_fallback cfg g) (target_key g)
                  (group_name_in_frame cfg)\<rparr>"

definition group_output :: "environment \<Rightarrow> config \<Rightarrow> group \<Rightarrow> artifact list" where
  "group_output env cfg g =
     group_artifact env cfg g # map (item_artifact env cfg (group_id_of g)) (items_of g)"

text \<open>The state after line 90, for a group that got past the three tests and whose file was
  written.\<close>

definition entered :: "environment \<Rightarrow> config \<Rightarrow> group \<Rightarrow> state \<Rightarrow> state" where
  "entered env cfg g st =
     st\<lparr>all_group_ids := (all_group_ids st)(group_id_of g \<mapsto> 1),
        all_item_frame_ids := (all_item_frame_ids st)(target_key g \<mapsto> 1),
        files := files st @ [group_artifact env cfg g]\<rparr>"

text \<open>The files of a run that one call site wrote.\<close>

definition written :: "origin \<Rightarrow> state \<Rightarrow> artifact list" where
  "written k st = filter (\<lambda>a. origin a = k) (files st)"

text \<open>A group gets past lines 75 to 87 in state \<open>st\<close>.\<close>

definition accepts :: "state \<Rightarrow> group \<Rightarrow> bool" where
  "accepts st g =
     (\<not> js_in (group_id_of g) (all_group_ids st)
      \<and> \<not> js_in (target_key g) (all_item_frame_ids st) \<and> complete g)"

text \<open>The items of \<open>xs\<close>, by position, for which the test of line 98 is true when the item loop
  starts with the table \<open>seen\<close>: those for which it is true on that table, and those that
  stand at an earlier position of \<open>xs\<close> too.\<close>

definition repeated :: "js_object \<Rightarrow> string list \<Rightarrow> string list" where
  "repeated seen xs =
     map (\<lambda>n. xs ! n)
       (filter (\<lambda>n. js_in (xs ! n) seen \<or> xs ! n \<in> set (take n xs)) [0..<length xs])"

subsection \<open>The three checks, read off the configuration\<close>

text \<open>The group at position \<open>i\<close> passes the test of line 75 when its identifier is no
  inherited property name and no earlier group has the same identifier.\<close>

definition passes_group_id_check :: "group list \<Rightarrow> nat \<Rightarrow> bool" where
  "passes_group_id_check gs i =
     (\<not> inherited (group_id_of (gs ! i))
      \<and> (\<forall>j \<in> {..<i}. group_id_of (gs ! j) \<noteq> group_id_of (gs ! i)))"

text \<open>It passes the test of line 81 when its frame key is no inherited property name and no
  earlier group that reached line 81 has the same key.\<close>

definition passes_item_frame_check :: "group list \<Rightarrow> nat \<Rightarrow> bool" where
  "passes_item_frame_check gs i =
     (\<not> inherited (target_key (gs ! i))
      \<and> (\<forall>j \<in> {..<i}. passes_group_id_check gs j
                      \<longrightarrow> target_key (gs ! j) \<noteq> target_key (gs ! i)))"

definition accepted :: "group list \<Rightarrow> nat \<Rightarrow> bool" where
  "accepted gs i =
     (passes_group_id_check gs i \<and> passes_item_frame_check gs i \<and> complete (gs ! i))"

definition accepted_groups :: "group list \<Rightarrow> group list" where
  "accepted_groups gs = map (\<lambda>i. gs ! i) (filter (accepted gs) [0..<length gs])"

definition processed_items :: "config \<Rightarrow> string list" where
  "processed_items cfg = concat (map items_of (accepted_groups (groups cfg)))"

text \<open>A state whose tables of group identifiers and frame keys are empty, as lines 49 and 50
  leave them.\<close>

definition fresh :: "state \<Rightarrow> bool" where
  "fresh st = (all_group_ids st = Map.empty \<and> all_item_frame_ids st = Map.empty)"

text \<open>The state in which the run stands before the group at position \<open>i\<close>, and the state that
  processing this group leads to.\<close>

definition state_before :: "environment \<Rightarrow> config \<Rightarrow> nat \<Rightarrow> state" where
  "state_before env cfg i = groups_forEach env cfg (take i (groups cfg)) (initial_state cfg)"

definition state_after :: "environment \<Rightarrow> config \<Rightarrow> nat \<Rightarrow> state" where
  "state_after env cfg i = process_group env cfg (groups cfg ! i) (state_before env cfg i)"

subsection \<open>Notions used to state the properties\<close>

text \<open>The text after the first colon of an identifier. This follows the wording of the
  specification (the substring after the first colon), not the script, and serves to
  compare the two.\<close>

definition substring_after_first_colon :: "string \<Rightarrow> string" where
  "substring_after_first_colon s = tl (dropWhile (\<lambda>c. c \<noteq> CHR '':'') s)"

text \<open>The lines of a text in which every line is ended by a line break.\<close>

definition lines_of :: "string \<Rightarrow> string list" where
  "lines_of s = butlast (split newline s)"

definition no_line_break :: "string \<Rightarrow> bool" where
  "no_line_break s = (newline \<notin> set s)"

text \<open>A dispatch line is recognised by the text with which line 104 begins.\<close>

definition dispatch_prefix :: string where
  \<open>dispatch_prefix = ''execute as @s if entity @s[type=item,nbt={Item:{id:"''\<close>

definition is_dispatch_line :: "string \<Rightarrow> bool" where
  "is_dispatch_line l = (take (length dispatch_prefix) l = dispatch_prefix)"

text \<open>The strings of a configuration that end up in \<^verbatim>\<open>sort_lines\<close>: the names of all groups,
  the effects, and the items that are processed.\<close>

definition effects_of :: "config \<Rightarrow> string list" where
  "effects_of cfg = (case effects cfg of None \<Rightarrow> [] | Some es \<Rightarrow> es)"

definition dispatcher_inputs :: "config \<Rightarrow> string list" where
  "dispatcher_inputs cfg = group_names cfg @ effects_of cfg @ processed_items cfg"

text \<open>A file that is the dispatcher, or holds what \<^verbatim>\<open>write_sort_file\<close> writes for some
  fallback action, target and name.\<close>

definition routing :: "artifact \<Rightarrow> bool" where
  "routing a =
     (origin a = DispatcherFile
      \<or> (\<exists>fallback_action target name.
            content a = sort_file_content fallback_action target name))"

text \<open>A segment that normalisation keeps as it is.\<close>

definition ordinary :: "string \<Rightarrow> bool" where
  "ordinary s = (s \<noteq> [] \<and> s \<noteq> ''.'' \<and> s \<noteq> ''..'')"


text \<open>Modelled from the spec: the game's reading of the two lines of a routing file, which is
  no code of the repository. The first line acts when an entity for its selector exists
  nearby, the second when none exists. What exists nearby is a parameter \<open>found\<close>.\<close>

datatype condition = IfEntity | UnlessEntity

definition branch_line :: "condition \<Rightarrow> string \<Rightarrow> string \<Rightarrow> string" where
  "branch_line c selector action =
     ''execute as @s '' @ (case c of IfEntity \<Rightarrow> ''if'' | UnlessEntity \<Rightarrow> ''unless'')
     @ '' entity '' @ selector @ '' run '' @ action"

definition branch_acts :: "(string \<Rightarrow> bool) \<Rightarrow> condition \<Rightarrow> string \<Rightarrow> bool" where
  "branch_acts found c selector =
     (case c of IfEntity \<Rightarrow> found selector | UnlessEntity \<Rightarrow> \<not> found selector)"

text \<open>The files of the function directory, by path, and what the writes of a run make of
  them: a write replaces what the path held.\<close>

type_synonym disk = "path \<rightharpoonup> string"

fun disk_after :: "artifact list \<Rightarrow> disk \<Rightarrow> disk" where
  "disk_after [] d = d"
| "disk_after (a # rest) d = disk_after rest (d(filename a \<mapsto> content a))"

subsection \<open>Example environment and configurations\<close>

text \<open>The script lies in \<^verbatim>\<open>/srv/pack/source\<close>; the function directory holds no directory, and
  a file name may have 255 characters.\<close>

definition bare_fs :: environment where
  "bare_fs =
     \<lparr>dirname = [''srv'', ''pack'', ''source''],
      writable = (\<lambda>p. p \<noteq> [] \<and> butlast p = [''srv'', ''pack'', ''data'', ''mss'', ''function'']
                      \<and> length (last p) \<le> 255)\<rparr>"

definition plain_config :: "group list \<Rightarrow> config" where
  "plain_config gs =
     \<lparr>groups = gs, effects = None, final_fallback = Some ''kill @s'',
      group_name_in_frame = None, item_name_in_frame = None\<rparr>"


definition coal_group :: group where
  "coal_group =
     \<lparr>group_name = ''Coal'', items = Some [''minecraft:coal'', ''minecraft:coal''],
      item_frame = Some ''minecraft:coal_ore'', fallback = None\<rparr>"

definition dirt_group :: group where
  "dirt_group =
     \<lparr>group_name = ''Dirt'', items = Some [''minecraft:dirt''], item_frame = None,
      fallback = None\<rparr>"

definition sand_group :: group where
  "sand_group =
     \<lparr>group_name = ''Sand'', items = Some [''minecraft:sand''], item_frame = None,
      fallback = None\<rparr>"

definition gravel_group :: group where
  "gravel_group =
     \<lparr>group_name = ''Gravel'', items = Some [], item_frame = Some ''minecraft:chest'',
      fallback = None\<rparr>"

definition wood_group :: group where
  "wood_group =
     \<lparr>group_name = ''Wood'', items = Some [''minecraft:oak_log''],
      item_frame = Some ''minecraft:chest'', fallback = None\<rparr>"

definition tools_group :: group where
  "tools_group =
     \<lparr>group_name = ''Tools'', items = Some [''minecraft:shears''],
      item_frame = Some ''minecraft:chest'', fallback = None\<rparr>"

definition tools_again_group :: group where
  "tools_again_group =
     \<lparr>group_name = ''Tools!'', items = Some [''minecraft:flint''],
      item_frame = Some ''minecraft:barrel'', fallback = None\<rparr>"


text \<open>An item whose file would lie in a directory that does not exist.\<close>

definition picks_group :: group where
  "picks_group =
     \<lparr>group_name = ''Picks'', items = Some [''mod:tools/pickaxe'', ''mod:shovel''],
      item_frame = Some ''minecraft:anvil'', fallback = None\<rparr>"

text \<open>A group whose name, and so whose file name, has 300 characters.\<close>

definition long_group :: group where
  "long_group =
     \<lparr>group_name = replicate 300 (CHR ''a''), items = Some [''minecraft:sand''],
      item_frame = Some ''minecraft:dropper'', fallback = None\<rparr>"

text \<open>An effect that holds a line break, followed by the text of a dispatch line.\<close>

definition echo_config :: config where
  "echo_config =
     \<lparr>groups = [], effects = Some [''say hi'' @ [newline] @ dispatch_line ''mod:gold''],
      final_fallback = Some ''kill @s'', group_name_in_frame = None,
      item_name_in_frame = None\<rparr>"

text \<open>An item identifier that holds a line break.\<close>

definition broken_group :: group where
  "broken_group =
     \<lparr>group_name = ''Broken'', items = Some [''mod:a'' @ [newline] @ ''b''],
      item_frame = Some ''minecraft:barrel'', fallback = None\<rparr>"

text \<open>The files of the function directory after a run that starts on the disk \<open>d\<close>.\<close>

definition run :: "environment \<Rightarrow> config \<Rightarrow> disk \<Rightarrow> disk" where
  "run env cfg d = disk_after (files (compile env cfg)) d"

section \<open>Properties of the run\<close>

subsection \<open>The item loop\<close>

lemma process_item_eq:
  "process_item env cfg gid i st =
     (if writable env (item_func_file env i)
      then st\<lparr>files := files st @ [item_artifact env cfg gid i],
              errors := errors st @ (if js_in i (all_item_ids st) then [DuplicateItemId i] else []),
              all_item_ids := (all_item_ids st)(i \<mapsto> 1),
              sort_lines := sort_lines st @ [dispatch_line i],
              total_items := Suc (total_items st)\<rparr>
      else st\<lparr>thrown := Some (WriteFailed (item_func_file env i))\<rparr>)"
  by (simp add: process_item_def write_sort_file_def writeFileSync_def item_artifact_def
        uncaught_def Let_def)

lemma process_item_tables [simp]:
  "all_group_ids (process_item env cfg gid i st) = all_group_ids st"
  "all_item_frame_ids (process_item env cfg gid i st) = all_item_frame_ids st"
  by (simp_all add: process_item_eq)

lemma process_item_thrown:
  "thrown (process_item env cfg gid i st) = None \<longleftrightarrow>
     thrown st = None \<and> writable env (item_func_file env i)"
  by (simp add: process_item_eq)

lemma process_item_proj:
  assumes "thrown (process_item env cfg gid i st) = None"
  shows "files (process_item env cfg gid i st) = files st @ [item_artifact env cfg gid i]"
    and "errors (process_item env cfg gid i st) =
           errors st @ (if js_in i (all_item_ids st) then [DuplicateItemId i] else [])"
    and "all_item_ids (process_item env cfg gid i st) = (all_item_ids st)(i \<mapsto> 1)"
    and "sort_lines (process_item env cfg gid i st) = sort_lines st @ [dispatch_line i]"
    and "total_items (process_item env cfg gid i st) = Suc (total_items st)"
  using assms by (simp_all add: process_item_eq split: if_splits)

lemma js_in_upd: "js_in k (m(i \<mapsto> v)) \<longleftrightarrow> k = i \<or> js_in k m"
  by (auto simp: js_in_def)

lemma repeated_Nil [simp]: "repeated seen [] = []"
  by (simp add: repeated_def)

lemma repeated_snoc:
  "repeated seen (xs @ [x]) =
     repeated seen xs @ (if js_in x seen \<or> x \<in> set xs then [x] else [])"
proof -
  let ?P = "\<lambda>ys n. js_in (ys ! n) seen \<or> ys ! n \<in> set (take n ys)"
  have f: "filter (?P (xs @ [x])) [0..<length xs] = filter (?P xs) [0..<length xs]"
    by (rule filter_cong) (auto simp: nth_append)
  have m: "map (\<lambda>n. (xs @ [x]) ! n) (filter (?P xs) [0..<length xs])
           = map (\<lambda>n. xs ! n) (filter (?P xs) [0..<length xs])"
    by (rule map_cong) (auto simp: nth_append)
  show ?thesis
    unfolding repeated_def using f m by (simp add: nth_append)
qed

lemma items_forEach_stopped [simp]:
  "thrown st \<noteq> None \<Longrightarrow> items_forEach env cfg gid xs st = st"
  by (cases xs) simp_all

lemma items_forEach_snoc:
  "items_forEach env cfg gid (xs @ [x]) st =
     (if thrown (items_forEach env cfg gid xs st) \<noteq> None then items_forEach env cfg gid xs st
      else process_item env cfg gid x (items_forEach env cfg gid xs st))"
  by (induction xs arbitrary: st) auto

lemma items_forEach_tables [simp]:
  "all_group_ids (items_forEach env cfg gid xs st) = all_group_ids st"
  "all_item_frame_ids (items_forEach env cfg gid xs st) = all_item_frame_ids st"
  by (induction xs arbitrary: st) simp_all

lemma items_forEach_thrown:
  "thrown (items_forEach env cfg gid xs st) = None \<longleftrightarrow>
     thrown st = None \<and> (\<forall>x \<in> set xs. writable env (item_func_file env x))"
proof (induction xs rule: rev_induct)
  case Nil
  show ?case by simp
next
  case (snoc x xs)
  then show ?case
    by (auto simp: items_forEach_snoc process_item_thrown)
qed

lemma items_forEach_prefix_thrown:
  "thrown (items_forEach env cfg gid (xs @ [x]) st) = None \<Longrightarrow>
   thrown (items_forEach env cfg gid xs st) = None"
  by (simp add: items_forEach_thrown)

lemma items_forEach_seen:
  assumes "thrown (items_forEach env cfg gid xs st) = None"
  shows "js_in k (all_item_ids (items_forEach env cfg gid xs st)) \<longleftrightarrow>
           js_in k (all_item_ids st) \<or> k \<in> set xs"
  using assms
proof (induction xs rule: rev_induct)
  case Nil
  show ?case by simp
next
  case (snoc x xs)
  have p: "thrown (items_forEach env cfg gid xs st) = None"
    using snoc.prems by (rule items_forEach_prefix_thrown)
  have q: "thrown (process_item env cfg gid x (items_forEach env cfg gid xs st)) = None"
    using snoc.prems p by (simp add: items_forEach_snoc)
  have "all_item_ids (items_forEach env cfg gid (xs @ [x]) st) =
          (all_item_ids (items_forEach env cfg gid xs st))(x \<mapsto> 1)"
    by (simp add: items_forEach_snoc p process_item_proj(3) [OF q])
  then have "js_in k (all_item_ids (items_forEach env cfg gid (xs @ [x]) st)) \<longleftrightarrow>
               k = x \<or> js_in k (all_item_ids (items_forEach env cfg gid xs st))"
    by (simp only: js_in_upd)
  then show ?case
    using snoc.IH [OF p] by auto
qed

lemma items_forEach_proj:
  assumes "thrown (items_forEach env cfg gid xs st) = None"
  shows "files (items_forEach env cfg gid xs st) = files st @ map (item_artifact env cfg gid) xs"
    and "sort_lines (items_forEach env cfg gid xs st) = sort_lines st @ map dispatch_line xs"
    and "total_items (items_forEach env cfg gid xs st) = total_items st + length xs"
    and "errors (items_forEach env cfg gid xs st) =
           errors st @ map DuplicateItemId (repeated (all_item_ids st) xs)"
  using assms
proof (induction xs rule: rev_induct)
  case Nil
  {
    case 1 show ?case by simp
  next
    case 2 show ?case by simp
  next
    case 3 show ?case by simp
  next
    case 4 show ?case by simp
  }
next
  case (snoc x xs)
  {
    case 1
    have p: "thrown (items_forEach env cfg gid xs st) = None"
      using 1 by (rule items_forEach_prefix_thrown)
    have q: "thrown (process_item env cfg gid x (items_forEach env cfg gid xs st)) = None"
      using 1 p by (simp add: items_forEach_snoc)
    show ?case
      by (simp add: items_forEach_snoc p process_item_proj [OF q] snoc.IH(1) [OF p])
  next
    case 2
    have p: "thrown (items_forEach env cfg gid xs st) = None"
      using 2 by (rule items_forEach_prefix_thrown)
    have q: "thrown (process_item env cfg gid x (items_forEach env cfg gid xs st)) = None"
      using 2 p by (simp add: items_forEach_snoc)
    show ?case
      by (simp add: items_forEach_snoc p process_item_proj [OF q] snoc.IH(2) [OF p])
  next
    case 3
    have p: "thrown (items_forEach env cfg gid xs st) = None"
      using 3 by (rule items_forEach_prefix_thrown)
    have q: "thrown (process_item env cfg gid x (items_forEach env cfg gid xs st)) = None"
      using 3 p by (simp add: items_forEach_snoc)
    show ?case
      by (simp add: items_forEach_snoc p process_item_proj [OF q] snoc.IH(3) [OF p])
  next
    case 4
    have p: "thrown (items_forEach env cfg gid xs st) = None"
      using 4 by (rule items_forEach_prefix_thrown)
    have q: "thrown (process_item env cfg gid x (items_forEach env cfg gid xs st)) = None"
      using 4 p by (simp add: items_forEach_snoc)
    show ?case
      by (simp add: items_forEach_snoc p process_item_proj [OF q] snoc.IH(4) [OF p]
            repeated_snoc items_forEach_seen [OF p])
  }
qed

subsection \<open>One group: the four outcomes\<close>

lemma process_group_duplicate_id:
  "js_in (group_id_of g) (all_group_ids st) \<Longrightarrow>
   process_group env cfg g st = st\<lparr>errors := errors st @ [DuplicateGroupId (group_id_of g)]\<rparr>"
  by (simp add: process_group_def)

lemma process_group_duplicate_frame:
  "\<not> js_in (group_id_of g) (all_group_ids st) \<Longrightarrow>
   js_in (target_key g) (all_item_frame_ids st) \<Longrightarrow>
   process_group env cfg g st =
     st\<lparr>all_group_ids := (all_group_ids st)(group_id_of g \<mapsto> 1),
        errors := errors st @ [DuplicateItemFrameId (target_key g)]\<rparr>"
  by (simp add: process_group_def Let_def)

lemma process_group_invalid:
  "\<not> js_in (group_id_of g) (all_group_ids st) \<Longrightarrow>
   \<not> js_in (target_key g) (all_item_frame_ids st) \<Longrightarrow> \<not> complete g \<Longrightarrow>
   process_group env cfg g st =
     st\<lparr>all_group_ids := (all_group_ids st)(group_id_of g \<mapsto> 1),
        all_item_frame_ids := (all_item_frame_ids st)(target_key g \<mapsto> 1),
        errors := errors st @ [InvalidGroup (group_id_of g)]\<rparr>"
  by (simp add: process_group_def Let_def)

lemma process_group_accepted:
  "accepts st g \<Longrightarrow>
   process_group env cfg g st =
     (if writable env (group_func_file env (group_id_of g))
      then items_forEach env cfg (group_id_of g) (items_of g)
             (entered env cfg g st)
      else st\<lparr>all_group_ids := (all_group_ids st)(group_id_of g \<mapsto> 1),
              all_item_frame_ids := (all_item_frame_ids st)(target_key g \<mapsto> 1),
              thrown := Some (WriteFailed (group_func_file env (group_id_of g)))\<rparr>)"
  by (simp add: process_group_def Let_def accepts_def write_sort_file_def writeFileSync_def
        group_artifact_def uncaught_def entered_def)

lemma entered_proj [simp]:
  "files (entered env cfg g st) = files st @ [group_artifact env cfg g]"
  "sort_lines (entered env cfg g st) = sort_lines st"
  "total_items (entered env cfg g st) = total_items st"
  "errors (entered env cfg g st) = errors st"
  "all_item_ids (entered env cfg g st) = all_item_ids st"
  "thrown (entered env cfg g st) = thrown st"
  by (simp_all add: entered_def)

lemma entered_tables:
  "js_in k (all_group_ids (entered env cfg g st)) \<longleftrightarrow>
     k = group_id_of g \<or> js_in k (all_group_ids st)"
  "js_in k (all_item_frame_ids (entered env cfg g st)) \<longleftrightarrow>
     k = target_key g \<or> js_in k (all_item_frame_ids st)"
  by (simp_all add: entered_def js_in_upd)

lemma process_group_cases:
  obtains (dup_id) "js_in (group_id_of g) (all_group_ids st)"
  | (dup_frame) "\<not> js_in (group_id_of g) (all_group_ids st)"
                "js_in (target_key g) (all_item_frame_ids st)"
  | (invalid) "\<not> js_in (group_id_of g) (all_group_ids st)"
              "\<not> js_in (target_key g) (all_item_frame_ids st)" "\<not> complete g"
  | (accepted) "accepts st g"
  unfolding accepts_def by blast

lemma process_group_accepted_thrown:
  assumes "accepts st g" and "thrown (process_group env cfg g st) = None"
  shows "writable env (group_func_file env (group_id_of g))"
    and "thrown (items_forEach env cfg (group_id_of g) (items_of g)
             (entered env cfg g st)) = None"
    and "process_group env cfg g st =
           items_forEach env cfg (group_id_of g) (items_of g)
             (entered env cfg g st)"
  using assms(2) by (simp_all add: process_group_accepted [OF assms(1)] split: if_splits)

lemma process_group_thrown_before:
  "thrown (process_group env cfg g st) = None \<Longrightarrow> thrown st = None"
  by (cases g st rule: process_group_cases)
     (simp_all add: process_group_duplicate_id process_group_duplicate_frame
        process_group_invalid process_group_accepted items_forEach_thrown split: if_splits)

lemma process_group_files:
  assumes "thrown (process_group env cfg g st) = None"
  shows "files (process_group env cfg g st) =
           files st @ (if accepts st g then group_output env cfg g else [])"
proof (cases g st rule: process_group_cases)
  case accepted
  note t = process_group_accepted_thrown [OF accepted assms]
  show ?thesis
    by (simp add: t(3) items_forEach_proj [OF t(2)] accepted group_output_def)
qed (simp_all add: process_group_duplicate_id process_group_duplicate_frame
       process_group_invalid accepts_def)

lemma process_group_sort_lines:
  assumes "thrown (process_group env cfg g st) = None"
  shows "sort_lines (process_group env cfg g st) =
           sort_lines st @ (if accepts st g then map dispatch_line (items_of g) else [])"
proof (cases g st rule: process_group_cases)
  case accepted
  note t = process_group_accepted_thrown [OF accepted assms]
  show ?thesis
    by (simp add: t(3) items_forEach_proj [OF t(2)] accepted)
qed (simp_all add: process_group_duplicate_id process_group_duplicate_frame
       process_group_invalid accepts_def)

lemma process_group_total_items:
  assumes "thrown (process_group env cfg g st) = None"
  shows "total_items (process_group env cfg g st) =
           total_items st + (if accepts st g then length (items_of g) else 0)"
proof (cases g st rule: process_group_cases)
  case accepted
  note t = process_group_accepted_thrown [OF accepted assms]
  show ?thesis
    by (simp add: t(3) items_forEach_proj [OF t(2)] accepted)
qed (simp_all add: process_group_duplicate_id process_group_duplicate_frame
       process_group_invalid accepts_def)

lemma process_group_accepted_errors:
  assumes "accepts st g" and "thrown (process_group env cfg g st) = None"
  shows "errors (process_group env cfg g st) =
           errors st @ map DuplicateItemId (repeated (all_item_ids st) (items_of g))"
proof -
  note t = process_group_accepted_thrown [OF assms]
  show ?thesis
    by (simp add: t(3) items_forEach_proj [OF t(2)])
qed

lemma process_group_seen_ids:
  "js_in k (all_group_ids (process_group env cfg g st)) \<longleftrightarrow>
     js_in k (all_group_ids st) \<or> k = group_id_of g"
  by (cases g st rule: process_group_cases)
     (auto simp: process_group_duplicate_id process_group_duplicate_frame
        process_group_invalid process_group_accepted js_in_upd entered_tables)

lemma process_group_seen_frames:
  "js_in k (all_item_frame_ids (process_group env cfg g st)) \<longleftrightarrow>
     js_in k (all_item_frame_ids st)
     \<or> (\<not> js_in (group_id_of g) (all_group_ids st) \<and> k = target_key g)"
  by (cases g st rule: process_group_cases)
     (auto simp: process_group_duplicate_id process_group_duplicate_frame
        process_group_invalid process_group_accepted js_in_upd accepts_def entered_tables)

subsection \<open>The group loop, and the checks read off the configuration\<close>

lemma groups_forEach_stopped [simp]:
  "thrown st \<noteq> None \<Longrightarrow> groups_forEach env cfg gs st = st"
  by (cases gs) simp_all

lemma groups_forEach_snoc:
  "groups_forEach env cfg (gs @ [g]) st =
     (if thrown (groups_forEach env cfg gs st) \<noteq> None then groups_forEach env cfg gs st
      else process_group env cfg g (groups_forEach env cfg gs st))"
  by (induction gs arbitrary: st) auto

lemma groups_forEach_append:
  "groups_forEach env cfg (gs @ hs) st = groups_forEach env cfg hs (groups_forEach env cfg gs st)"
  by (induction gs arbitrary: st) auto

lemma groups_forEach_prefix_thrown:
  "thrown (groups_forEach env cfg (gs @ hs) st) = None \<Longrightarrow>
   thrown (groups_forEach env cfg gs st) = None"
  by (cases "thrown (groups_forEach env cfg gs st)") (simp_all add: groups_forEach_append)

lemma groups_forEach_step:
  assumes "thrown (groups_forEach env cfg (gs @ [g]) st) = None"
  shows "thrown (groups_forEach env cfg gs st) = None"
    and "groups_forEach env cfg (gs @ [g]) st =
           process_group env cfg g (groups_forEach env cfg gs st)"
    and "thrown (process_group env cfg g (groups_forEach env cfg gs st)) = None"
proof -
  show p: "thrown (groups_forEach env cfg gs st) = None"
    using assms by (rule groups_forEach_prefix_thrown)
  show q: "groups_forEach env cfg (gs @ [g]) st =
             process_group env cfg g (groups_forEach env cfg gs st)"
    by (simp add: groups_forEach_snoc p)
  show "thrown (process_group env cfg g (groups_forEach env cfg gs st)) = None"
    using assms by (simp only: q)
qed

lemma passes_group_id_check_append:
  "i < length gs \<Longrightarrow> passes_group_id_check (gs @ hs) i = passes_group_id_check gs i"
  by (simp add: passes_group_id_check_def nth_append)

lemma passes_item_frame_check_append:
  "i < length gs \<Longrightarrow> passes_item_frame_check (gs @ hs) i = passes_item_frame_check gs i"
  by (simp add: passes_item_frame_check_def nth_append passes_group_id_check_append)

lemma accepted_append:
  "i < length gs \<Longrightarrow> accepted (gs @ hs) i = accepted gs i"
  by (simp add: accepted_def passes_group_id_check_append passes_item_frame_check_append
        nth_append)

lemma accepted_groups_snoc:
  "accepted_groups (gs @ [g]) =
     accepted_groups gs @ (if accepted (gs @ [g]) (length gs) then [g] else [])"
proof -
  have f: "filter (accepted (gs @ [g])) [0..<length gs] = filter (accepted gs) [0..<length gs]"
    by (rule filter_cong) (auto simp: accepted_append)
  have m: "map (\<lambda>i. (gs @ [g]) ! i) (filter (accepted gs) [0..<length gs])
           = map (\<lambda>i. gs ! i) (filter (accepted gs) [0..<length gs])"
    by (rule map_cong) (auto simp: nth_append)
  show ?thesis
    unfolding accepted_groups_def using f m by simp
qed

lemma accepted_groups_Nil [simp]: "accepted_groups [] = []"
  by (simp add: accepted_groups_def)

lemma groups_forEach_seen_ids:
  assumes "fresh st" and "thrown (groups_forEach env cfg gs st) = None"
  shows "js_in k (all_group_ids (groups_forEach env cfg gs st)) \<longleftrightarrow>
           inherited k \<or> k \<in> set (map group_id_of gs)"
  using assms(2)
proof (induction gs rule: rev_induct)
  case Nil
  from assms(1) show ?case by (simp add: fresh_def js_in_def)
next
  case (snoc g gs)
  note t = groups_forEach_step [OF snoc.prems]
  show ?case
    using snoc.IH [OF t(1)] by (auto simp: t(2) process_group_seen_ids)
qed

lemma not_seen_iff_passes:
  assumes "fresh st" and "thrown (groups_forEach env cfg gs st) = None"
  shows "\<not> js_in (group_id_of g) (all_group_ids (groups_forEach env cfg gs st)) \<longleftrightarrow>
           passes_group_id_check (gs @ [g]) (length gs)"
proof -
  have "group_id_of g \<in> set (map group_id_of gs) \<longleftrightarrow>
          (\<exists>j<length gs. group_id_of (gs ! j) = group_id_of g)"
    unfolding in_set_conv_nth by auto
  then show ?thesis
    unfolding groups_forEach_seen_ids [OF assms] passes_group_id_check_def
    by (auto simp: nth_append)
qed

lemma groups_forEach_seen_frames:
  assumes "fresh st" and "thrown (groups_forEach env cfg gs st) = None"
  shows "js_in k (all_item_frame_ids (groups_forEach env cfg gs st)) \<longleftrightarrow>
           inherited k \<or> (\<exists>j<length gs. passes_group_id_check gs j \<and> target_key (gs ! j) = k)"
  using assms(2)
proof (induction gs rule: rev_induct)
  case Nil
  from assms(1) show ?case by (simp add: fresh_def js_in_def)
next
  case (snoc g gs)
  note t = groups_forEach_step [OF snoc.prems]
  let ?R = "\<lambda>hs j. passes_group_id_check hs j \<and> target_key (hs ! j) = k"
  have same: "(j < length gs \<and> ?R (gs @ [g]) j) = (j < length gs \<and> ?R gs j)" for j
    by (cases "j < length gs") (simp_all add: nth_append passes_group_id_check_append)
  have "(\<exists>j<length (gs @ [g]). ?R (gs @ [g]) j) \<longleftrightarrow>
          ?R (gs @ [g]) (length gs) \<or> (\<exists>j<length gs. ?R (gs @ [g]) j)"
    by (simp add: Ex_less_Suc)
  also have "(\<exists>j<length gs. ?R (gs @ [g]) j) \<longleftrightarrow> (\<exists>j<length gs. ?R gs j)"
    using same by blast
  finally have split:
    "(\<exists>j<length (gs @ [g]). ?R (gs @ [g]) j) \<longleftrightarrow>
       (passes_group_id_check (gs @ [g]) (length gs) \<and> target_key g = k)
       \<or> (\<exists>j<length gs. ?R gs j)"
    by simp
  have step: "js_in k (all_item_frame_ids (groups_forEach env cfg (gs @ [g]) st)) \<longleftrightarrow>
      js_in k (all_item_frame_ids (groups_forEach env cfg gs st))
      \<or> (passes_group_id_check (gs @ [g]) (length gs) \<and> k = target_key g)"
    by (simp only: t(2) process_group_seen_frames not_seen_iff_passes [OF assms(1) t(1)])
  show ?case
    unfolding step split snoc.IH [OF t(1)] by (cases "k = target_key g") auto
qed

lemma frame_not_seen_iff_passes:
  assumes "fresh st" and "thrown (groups_forEach env cfg gs st) = None"
  shows "\<not> js_in (target_key g) (all_item_frame_ids (groups_forEach env cfg gs st)) \<longleftrightarrow>
           passes_item_frame_check (gs @ [g]) (length gs)"
  unfolding groups_forEach_seen_frames [OF assms] passes_item_frame_check_def
  by (auto simp: nth_append passes_group_id_check_append)

lemma accepts_iff_accepted:
  assumes "fresh st" and "thrown (groups_forEach env cfg gs st) = None"
  shows "accepts (groups_forEach env cfg gs st) g \<longleftrightarrow> accepted (gs @ [g]) (length gs)"
  by (simp add: accepts_def accepted_def not_seen_iff_passes [OF assms]
        frame_not_seen_iff_passes [OF assms])

lemma groups_forEach_files:
  assumes "fresh st" and "thrown (groups_forEach env cfg gs st) = None"
  shows "files (groups_forEach env cfg gs st) =
           files st @ concat (map (group_output env cfg) (accepted_groups gs))"
  using assms(2)
proof (induction gs rule: rev_induct)
  case Nil
  show ?case by simp
next
  case (snoc g gs)
  note t = groups_forEach_step [OF snoc.prems]
  show ?case
    by (simp add: t(2) process_group_files [OF t(3)] snoc.IH [OF t(1)]
          accepts_iff_accepted [OF assms(1) t(1)] accepted_groups_snoc)
qed

lemma groups_forEach_sort_lines:
  assumes "fresh st" and "thrown (groups_forEach env cfg gs st) = None"
  shows "sort_lines (groups_forEach env cfg gs st) =
           sort_lines st @ map dispatch_line (concat (map items_of (accepted_groups gs)))"
  using assms(2)
proof (induction gs rule: rev_induct)
  case Nil
  show ?case by simp
next
  case (snoc g gs)
  note t = groups_forEach_step [OF snoc.prems]
  show ?case
    by (simp add: t(2) process_group_sort_lines [OF t(3)] snoc.IH [OF t(1)]
          accepts_iff_accepted [OF assms(1) t(1)] accepted_groups_snoc)
qed

lemma groups_forEach_total_items:
  assumes "fresh st" and "thrown (groups_forEach env cfg gs st) = None"
  shows "total_items (groups_forEach env cfg gs st) =
           total_items st + length (concat (map items_of (accepted_groups gs)))"
  using assms(2)
proof (induction gs rule: rev_induct)
  case Nil
  show ?case by simp
next
  case (snoc g gs)
  note t = groups_forEach_step [OF snoc.prems]
  show ?case
    by (simp add: t(2) process_group_total_items [OF t(3)] snoc.IH [OF t(1)]
          accepts_iff_accepted [OF assms(1) t(1)] accepted_groups_snoc)
qed

subsection \<open>Splitting at a separator\<close>

lemma split_not_Nil: "split c s \<noteq> []"
  by (induction s) (auto split: list.splits)

lemma split_no_separator: "c \<notin> set s \<Longrightarrow> split c s = [s]"
  by (induction s) auto

lemma split_at_separator: "c \<notin> set s \<Longrightarrow> split c (s @ c # rest) = s # split c rest"
  by (induction s) auto

lemma split_pieces: "p \<in> set (split c s) \<Longrightarrow> set p \<subseteq> set s"
proof (induction s arbitrary: p)
  case Nil
  then show ?case by simp
next
  case (Cons x xs)
  obtain q qs where q: "split c xs = q # qs"
    using split_not_Nil [of c xs] by (auto simp: neq_Nil_conv)
  show ?case
  proof (cases "x = c")
    case True
    with Cons show ?thesis by auto
  next
    case False
    with Cons.prems q have "p = x # q \<or> p \<in> set qs"
      by simp
    then show ?thesis
    proof
      assume p: "p = x # q"
      have "set q \<subseteq> set xs"
        using q by (intro Cons.IH) simp
      with p show ?thesis by auto
    next
      assume "p \<in> set qs"
      then have "set p \<subseteq> set xs"
        using q by (intro Cons.IH) simp
      then show ?thesis by auto
    qed
  qed
qed


lemma item_name_one_colon:
  "CHR '':'' \<notin> set ns \<Longrightarrow> CHR '':'' \<notin> set nm \<Longrightarrow> item_name (ns @ CHR '':'' # nm) = Some nm"
  by (simp add: item_name_def split_at_separator split_no_separator)

lemma item_name_more_colons:
  "CHR '':'' \<notin> set ns \<Longrightarrow> CHR '':'' \<notin> set nm \<Longrightarrow>
   item_name (ns @ CHR '':'' # nm @ CHR '':'' # rest) = Some nm"
proof -
  assume a: "CHR '':'' \<notin> set ns" and b: "CHR '':'' \<notin> set nm"
  obtain p ps where "split CHR '':'' rest = p # ps"
    using split_not_Nil [of "CHR '':''" rest] by (auto simp: neq_Nil_conv)
  then show ?thesis
    using a b by (simp add: item_name_def split_at_separator)
qed

lemma item_name_piece: "item_name item_id = Some nm \<Longrightarrow> set nm \<subseteq> set item_id"
proof -
  assume a: "item_name item_id = Some nm"
  then have "nm \<in> set (split CHR '':'' item_id)"
    unfolding item_name_def by (cases "split CHR '':'' item_id" rule: index1.cases) auto
  then show ?thesis
    by (rule split_pieces)
qed

lemma substring_after_first_colon_eq:
  "CHR '':'' \<notin> set ns \<Longrightarrow> substring_after_first_colon (ns @ CHR '':'' # rest) = rest"
  by (induction ns) (auto simp: substring_after_first_colon_def)

subsection \<open>Paths\<close>

lemma posix_normalize_keeps:
  "ordinary s \<Longrightarrow> posix_normalize res (s # ss) = posix_normalize (s # res) ss"
  by (simp add: ordinary_def)

lemma posix_normalize_plain:
  "list_all ordinary segs \<Longrightarrow>
   posix_normalize res (segs @ rest) = posix_normalize (rev segs @ res) rest"
proof (induction segs arbitrary: res)
  case Nil
  show ?case by simp
next
  case (Cons s segs)
  then have "ordinary s" and "list_all ordinary segs"
    by simp_all
  then show ?case
    using Cons.IH [of "s # res"] by (simp only: append_Cons posix_normalize_keeps rev.simps append_assoc append_Nil)
qed

lemma posix_normalize_result:
  "list_all ordinary res \<Longrightarrow> list_all ordinary (posix_normalize res segs)"
proof (induction segs arbitrary: res)
  case Nil
  then show ?case by (simp add: list_all_iff)
next
  case (Cons s segs)
  have t: "list_all ordinary (tl res)"
    using Cons.prems by (cases res) simp_all
  consider "s = [] \<or> s = ''.''" | "s = ''..''" | "ordinary s"
    unfolding ordinary_def by blast
  then show ?case
  proof cases
    case 1
    then have "posix_normalize res (s # segs) = posix_normalize res segs"
      by auto
    then show ?thesis
      using Cons.IH [OF Cons.prems] by simp
  next
    case 2
    then have "posix_normalize res (s # segs) = posix_normalize (tl res) segs"
      by simp
    then show ?thesis
      using Cons.IH [OF t] by simp
  next
    case 3
    then have "posix_normalize res (s # segs) = posix_normalize (s # res) segs"
      by (rule posix_normalize_keeps)
    moreover have "list_all ordinary (s # res)"
      using 3 Cons.prems by simp
    ultimately show ?thesis
      using Cons.IH [of "s # res"] by simp
  qed
qed

lemma func_dir_plain: "list_all ordinary (func_dir env)"
  unfolding func_dir_def by (rule posix_normalize_result) simp

lemma path_join_func_dir:
  assumes "CHR ''/'' \<notin> set name" and "ordinary name"
  shows "path_join (func_dir env) name = func_dir env @ [name]"
proof -
  have "path_join (func_dir env) name = posix_normalize [] (func_dir env @ [name])"
    using assms(1) by (simp add: path_join_def split_no_separator)
  also have "\<dots> = posix_normalize (rev (func_dir env) @ []) [name]"
    by (rule posix_normalize_plain) (rule func_dir_plain)
  also have "\<dots> = posix_normalize (name # rev (func_dir env)) []"
    using assms(2) by (simp only: posix_normalize_keeps append_Nil2)
  also have "\<dots> = func_dir env @ [name]"
    by simp
  finally show ?thesis .
qed

lemma ordinary_sort_name: "ordinary (CHR ''s'' # rest)"
  by (simp add: ordinary_def)


lemma no_slash_in_group_id: "CHR ''/'' \<notin> set (group_id_of g)"
proof -
  have "\<not> word_char (CHR ''/'')"
    by (simp add: word_char_def)
  then show ?thesis
    by (auto simp: group_id_of_def strip_non_word_def)
qed

lemma group_func_file_plain:
  "group_func_file env (group_id_of g) = func_dir env @ [''sort_'' @ group_id_of g @ ''.mcfunction'']"
proof -
  have "CHR ''/'' \<notin> set (''sort_'' @ group_id_of g @ ''.mcfunction'')"
    using no_slash_in_group_id [of g] by simp
  moreover have "ordinary (''sort_'' @ group_id_of g @ ''.mcfunction'')"
    by (simp add: ordinary_sort_name)
  ultimately show ?thesis
    unfolding group_func_file_def by (rule path_join_func_dir)
qed

lemma sort_func_file_plain: "sort_func_file env = func_dir env @ [''sort.mcfunction'']"
  unfolding sort_func_file_def by (rule path_join_func_dir) (simp_all add: ordinary_sort_name)


lemma group_func_file_eq_iff:
  "group_func_file env (group_id_of g) = group_func_file env (group_id_of h)
     \<longleftrightarrow> group_id_of g = group_id_of h"
  by (simp add: group_func_file_plain)

subsection \<open>Line breaks\<close>

lemma newline_not_in_literals:
  \<open>newline \<notin> set ''execute as @s if entity ''\<close>
  \<open>newline \<notin> set '' run teleport @s ''\<close>
  \<open>newline \<notin> set ''execute as @s unless entity ''\<close>
  \<open>newline \<notin> set '' run ''\<close>
  \<open>newline \<notin> set ''@e[type=minecraft:item_frame,nbt={Item:{id:"''\<close>
  \<open>newline \<notin> set ''@e[limit=1,sort=nearest,type=minecraft:item_frame,nbt={Item:{id:"''\<close>
  \<open>newline \<notin> set ''}},distance=..128]''\<close>
  \<open>newline \<notin> set '',components:{"minecraft:custom_name":'"''\<close>
  \<open>newline \<notin> set ''"'}''\<close>
  by (simp_all add: newline_def)

lemma newline_not_in_name_selector:
  "newline \<notin> set (js_string name) \<Longrightarrow> newline \<notin> set (name_selector name)"
  using newline_not_in_literals by (simp add: name_selector_def)

lemma newline_not_in_selectors:
  assumes "newline \<notin> set target" and "newline \<notin> set (js_string name)"
  shows "newline \<notin> set (entity_match_selector target name)"
    and "newline \<notin> set (entity_dest_selector target name)"
  using assms newline_not_in_name_selector [OF assms(2)] newline_not_in_literals
  by (simp_all add: entity_match_selector_def entity_dest_selector_def)

lemma lines_of_two:
  "newline \<notin> set a \<Longrightarrow> newline \<notin> set b \<Longrightarrow> lines_of (a @ [newline] @ b @ [newline]) = [a, b]"
  by (simp add: lines_of_def split_at_separator)

lemma lines_of_join:
  "ls \<noteq> [] \<Longrightarrow> (\<And>l. l \<in> set ls \<Longrightarrow> newline \<notin> set l) \<Longrightarrow>
   lines_of (join [newline] ls @ [newline]) = ls"
proof (induction "[newline]" ls rule: join.induct)
  case 1
  then show ?case by simp
next
  case (2 s)
  then show ?case
    by (simp add: lines_of_def split_at_separator)
next
  case (3 s t ts)
  have s: "newline \<notin> set s"
    using 3 by simp
  have "lines_of (join [newline] (t # ts) @ [newline]) = t # ts"
    using 3 by simp
  moreover have "split newline (join [newline] (t # ts) @ [newline]) \<noteq> []"
    by (rule split_not_Nil)
  ultimately show ?case
    using s by (simp add: lines_of_def split_at_separator)
qed

lemma digit_no_line_break: "d < 10 \<Longrightarrow> digit d \<noteq> newline"
proof
  assume d: "d < 10" and "digit d = newline"
  then have "(of_char (char_of (48 + d)) :: nat) = of_char (CHR 0x0A)"
    by (simp add: digit_def newline_def)
  with d show False
    by simp
qed

lemma decimal_no_line_break: "newline \<notin> set (decimal n)"
proof (induction n rule: decimal.induct)
  case (1 n)
  show ?case
  proof (cases "n < 10")
    case True
    then show ?thesis
      by (subst decimal.simps) (simp add: digit_no_line_break [symmetric] eq_commute)
  next
    case False
    have "n mod 10 < 10" by simp
    then have "digit (n mod 10) \<noteq> newline"
      by (rule digit_no_line_break)
    with False 1 show ?thesis
      by (subst decimal.simps) auto
  qed
qed

lemma join_no_line_break:
  "newline \<notin> set sep \<Longrightarrow> (\<And>l. l \<in> set ls \<Longrightarrow> newline \<notin> set l) \<Longrightarrow>
   newline \<notin> set (join sep ls)"
  by (induction sep ls rule: join.induct) simp_all

lemma dispatch_line_no_line_break:
  assumes "newline \<notin> set item_id"
  shows "newline \<notin> set (dispatch_line item_id)"
proof -
  have "newline \<notin> set (js_string (item_name item_id))"
  proof (cases "item_name item_id")
    case None
    then show ?thesis by (simp add: js_string_def newline_def)
  next
    case (Some nm)
    with assms item_name_piece [OF Some] show ?thesis
      by (auto simp: js_string_def)
  qed
  with assms show ?thesis
    by (simp add: dispatch_line_def newline_def)
qed

lemma effect_lines_no_line_break:
  assumes "\<And>s. s \<in> set (effects_of cfg) \<Longrightarrow> newline \<notin> set s"
    and "l \<in> set (effect_lines cfg)"
  shows "newline \<notin> set l"
proof -
  from assms(2) obtain x where x: "x \<in> set (effects_of cfg)"
    and l: "l = ''execute at @s unless score #mss_cooldown mss_cooldown matches 1 run '' @ x"
    by (auto simp: effect_lines_def effects_of_def split: option.splits)
  from x have "newline \<notin> set x"
    by (rule assms(1))
  then show ?thesis
    unfolding l by (simp add: newline_def)
qed

lemma header_lines_no_line_break:
  assumes "\<And>s. s \<in> set (group_names cfg) \<Longrightarrow> newline \<notin> set s"
    and "\<And>s. s \<in> set (effects_of cfg) \<Longrightarrow> newline \<notin> set s"
    and "l \<in> set (header_lines cfg)"
  shows "newline \<notin> set l"
proof -
  let ?first = "[''# Magic Sorting System v2.0 -- Sort Single Item'',
      ''# Expects input @s from previous execute / run'',
      ''# '' @ decimal (length (group_names cfg)) @ '' Groups: '' @ join '', '' (group_names cfg),
      []]"
  let ?last = "[''scoreboard players set #mss_cooldown mss_cooldown 1'', []]"
  have j: "newline \<notin> set (join '', '' (group_names cfg))"
    using assms(1) by (intro join_no_line_break) (simp_all add: newline_def)
  have a: "\<forall>l \<in> set ?first. newline \<notin> set l"
    using j decimal_no_line_break [of "length (group_names cfg)"] by (simp add: newline_def)
  have b: "\<forall>l \<in> set ?last. newline \<notin> set l"
    by (simp add: newline_def)
  from assms(3) have "l \<in> set ?first \<or> l \<in> set (effect_lines cfg) \<or> l \<in> set ?last"
    unfolding header_lines_def by (simp only: set_append Un_iff)
  then show ?thesis
    using a b effect_lines_no_line_break [OF assms(2)] by blast
qed

subsection \<open>The whole run\<close>

lemma initial_state_proj [simp]:
  "sort_lines (initial_state cfg) = header_lines cfg"
  "total_items (initial_state cfg) = 0"
  "files (initial_state cfg) = []"
  "errors (initial_state cfg) = []"
  "thrown (initial_state cfg) = None"
  "all_group_ids (initial_state cfg) = Map.empty"
  "all_item_frame_ids (initial_state cfg) = Map.empty"
  "all_item_ids (initial_state cfg) = Map.empty"
  by (simp_all add: initial_state_def)

lemma fresh_initial_state: "fresh (initial_state cfg)"
  by (simp add: fresh_def)

lemma write_dispatcher_eq:
  "write_dispatcher env st =
     (if thrown st \<noteq> None then st
      else if writable env (sort_func_file env)
           then st\<lparr>files := files st @ [dispatcher_artifact env st]\<rparr>
           else st\<lparr>thrown := Some (WriteFailed (sort_func_file env))\<rparr>)"
  by (simp add: write_dispatcher_def writeFileSync_def uncaught_def dispatcher_artifact_def)

lemma write_dispatcher_thrown:
  "thrown (write_dispatcher env st) = None \<longleftrightarrow>
     thrown st = None \<and> writable env (sort_func_file env)"
  by (simp add: write_dispatcher_eq)

lemma write_dispatcher_proj:
  "sort_lines (write_dispatcher env st) = sort_lines st"
  "total_items (write_dispatcher env st) = total_items st"
  "errors (write_dispatcher env st) = errors st"
  "all_group_ids (write_dispatcher env st) = all_group_ids st"
  "all_item_frame_ids (write_dispatcher env st) = all_item_frame_ids st"
  "all_item_ids (write_dispatcher env st) = all_item_ids st"
  by (simp_all add: write_dispatcher_eq)

lemma write_dispatcher_files:
  "thrown (write_dispatcher env st) = None \<Longrightarrow>
   files (write_dispatcher env st) = files st @ [dispatcher_artifact env st]"
  by (simp add: write_dispatcher_eq split: if_splits)

lemma compile_loop_thrown:
  "thrown (compile env cfg) = None \<Longrightarrow>
   thrown (groups_forEach env cfg (groups cfg) (initial_state cfg)) = None"
  by (simp add: compile_def write_dispatcher_thrown)

lemma compile_sort_lines:
  "thrown (compile env cfg) = None \<Longrightarrow>
   sort_lines (compile env cfg) = header_lines cfg @ map dispatch_line (processed_items cfg)"
  using groups_forEach_sort_lines [OF fresh_initial_state compile_loop_thrown, of env cfg]
  by (simp add: compile_def write_dispatcher_proj processed_items_def)

lemma compile_total_items:
  "thrown (compile env cfg) = None \<Longrightarrow>
   total_items (compile env cfg) = length (processed_items cfg)"
  using groups_forEach_total_items [OF fresh_initial_state compile_loop_thrown, of env cfg]
  by (simp add: compile_def write_dispatcher_proj processed_items_def)

lemma dispatcher_artifact_compile:
  "dispatcher_artifact env (groups_forEach env cfg (groups cfg) (initial_state cfg)) =
     dispatcher_artifact env (compile env cfg)"
  by (simp add: dispatcher_artifact_def compile_def write_dispatcher_proj)

lemma compile_files:
  assumes "thrown (compile env cfg) = None"
  shows "files (compile env cfg) =
           concat (map (group_output env cfg) (accepted_groups (groups cfg)))
           @ [dispatcher_artifact env (compile env cfg)]"
proof -
  have "files (compile env cfg) =
          files (groups_forEach env cfg (groups cfg) (initial_state cfg))
          @ [dispatcher_artifact env (groups_forEach env cfg (groups cfg) (initial_state cfg))]"
    using assms unfolding compile_def by (rule write_dispatcher_files)
  then show ?thesis
    by (simp add: groups_forEach_files [OF fresh_initial_state compile_loop_thrown [OF assms]]
          dispatcher_artifact_compile)
qed

lemma group_output_GroupFile:
  "filter (\<lambda>a. origin a = GroupFile) (group_output env cfg g) = [group_artifact env cfg g]"
  by (simp add: group_output_def group_artifact_def item_artifact_def filter_map o_def)


lemma group_output_DispatcherFile:
  "filter (\<lambda>a. origin a = DispatcherFile) (group_output env cfg g) = []"
  by (simp add: group_output_def group_artifact_def item_artifact_def filter_empty_conv)

lemma written_GroupFile:
  "thrown (compile env cfg) = None \<Longrightarrow>
   written GroupFile (compile env cfg) =
     map (group_artifact env cfg) (accepted_groups (groups cfg))"
  by (simp add: written_def compile_files filter_concat o_def group_output_GroupFile
        dispatcher_artifact_def)



lemma written_DispatcherFile:
  "thrown (compile env cfg) = None \<Longrightarrow>
   written DispatcherFile (compile env cfg) = [dispatcher_artifact env (compile env cfg)]"
  by (simp add: written_def compile_files filter_concat o_def group_output_DispatcherFile)
     (simp add: dispatcher_artifact_def)

subsection \<open>Recognising dispatch lines\<close>

lemma is_dispatch_line_dispatch_line: "is_dispatch_line (dispatch_line item_id)"
  by (simp add: is_dispatch_line_def dispatch_line_def dispatch_prefix_def)

lemma is_dispatch_line_start: "is_dispatch_line l \<Longrightarrow> \<exists>rest. l = dispatch_prefix @ rest"
  unfolding is_dispatch_line_def by (metis append_take_drop_id)

lemma not_dispatch_line_simps [simp]:
  "\<not> is_dispatch_line []"
  "\<not> is_dispatch_line (CHR ''#'' # xs)"
  "\<not> is_dispatch_line (CHR ''s'' # xs)"
  using is_dispatch_line_start [of "[]"] is_dispatch_line_start [of "CHR ''#'' # xs"]
    is_dispatch_line_start [of "CHR ''s'' # xs"]
  by (auto simp: dispatch_prefix_def)

lemma effect_lines_not_dispatch: "filter is_dispatch_line (effect_lines cfg) = []"
proof -
  have "\<not> is_dispatch_line
     (''execute at @s unless score #mss_cooldown mss_cooldown matches 1 run '' @ e)" for e
    using is_dispatch_line_start
      [of "''execute at @s unless score #mss_cooldown mss_cooldown matches 1 run '' @ e"]
    by (auto simp: dispatch_prefix_def)
  then show ?thesis
    by (auto simp: effect_lines_def filter_empty_conv split: option.splits)
qed

lemma header_lines_not_dispatch: "filter is_dispatch_line (header_lines cfg) = []"
  by (simp add: header_lines_def effect_lines_not_dispatch)

lemma filter_dispatch_lines:
  "filter is_dispatch_line (header_lines cfg @ map dispatch_line xs) = map dispatch_line xs"
proof -
  have "filter is_dispatch_line (header_lines cfg) = []"
    by (rule header_lines_not_dispatch)
  moreover have "filter is_dispatch_line (map dispatch_line xs) = map dispatch_line xs"
    by (simp add: filter_id_conv is_dispatch_line_dispatch_line)
  ultimately show ?thesis by simp
qed

lemma header_lines_not_Nil: "header_lines cfg \<noteq> []"
  by (simp add: header_lines_def)

subsection \<open>The run at one position\<close>


lemma passes_group_id_check_take:
  assumes "i < length gs"
  shows "passes_group_id_check (take i gs @ [gs ! i]) (length (take i gs)) =
           passes_group_id_check gs i"
proof -
  have len: "length (take i gs) = i"
    using assms by simp
  have "passes_group_id_check gs i = passes_group_id_check (take (Suc i) gs @ drop (Suc i) gs) i"
    by simp
  also have "\<dots> = passes_group_id_check (take (Suc i) gs) i"
    using assms by (intro passes_group_id_check_append) simp
  also have "\<dots> = passes_group_id_check (take i gs @ [gs ! i]) i"
    using assms by (simp only: take_Suc_conv_app_nth)
  finally show ?thesis
    by (simp only: len)
qed

lemma passes_item_frame_check_take:
  assumes "i < length gs"
  shows "passes_item_frame_check (take i gs @ [gs ! i]) (length (take i gs)) =
           passes_item_frame_check gs i"
proof -
  have len: "length (take i gs) = i"
    using assms by simp
  have "passes_item_frame_check gs i =
          passes_item_frame_check (take (Suc i) gs @ drop (Suc i) gs) i"
    by simp
  also have "\<dots> = passes_item_frame_check (take (Suc i) gs) i"
    using assms by (intro passes_item_frame_check_append) simp
  also have "\<dots> = passes_item_frame_check (take i gs @ [gs ! i]) i"
    using assms by (simp only: take_Suc_conv_app_nth)
  finally show ?thesis
    by (simp only: len)
qed

lemma state_before_group_id:
  assumes "i < length (groups cfg)" and "thrown (state_before env cfg i) = None"
  shows "\<not> js_in (group_id_of (groups cfg ! i)) (all_group_ids (state_before env cfg i)) \<longleftrightarrow>
           passes_group_id_check (groups cfg) i"
  using assms(2) unfolding state_before_def
  by (simp only: not_seen_iff_passes [OF fresh_initial_state]
        passes_group_id_check_take [OF assms(1)])

lemma state_before_item_frame:
  assumes "i < length (groups cfg)" and "thrown (state_before env cfg i) = None"
  shows "\<not> js_in (target_key (groups cfg ! i)) (all_item_frame_ids (state_before env cfg i)) \<longleftrightarrow>
           passes_item_frame_check (groups cfg) i"
  using assms(2) unfolding state_before_def
  by (simp only: frame_not_seen_iff_passes [OF fresh_initial_state]
        passes_item_frame_check_take [OF assms(1)])

lemma compile_through_group:
  assumes "i < length (groups cfg)" and "thrown (state_before env cfg i) = None"
  shows "compile env cfg =
           write_dispatcher env
             (groups_forEach env cfg (drop (Suc i) (groups cfg)) (state_after env cfg i))"
proof -
  have "groups cfg = take i (groups cfg) @ (groups cfg ! i) # drop (Suc i) (groups cfg)"
    using assms(1) by (simp add: id_take_nth_drop [symmetric])
  then have "groups_forEach env cfg (groups cfg) (initial_state cfg) =
      groups_forEach env cfg ((groups cfg ! i) # drop (Suc i) (groups cfg))
        (state_before env cfg i)"
    unfolding state_before_def by (metis groups_forEach_append)
  also have "\<dots> = groups_forEach env cfg (drop (Suc i) (groups cfg)) (state_after env cfg i)"
    using assms(2) by (simp add: state_after_def)
  finally show ?thesis
    by (simp only: compile_def)
qed

subsection \<open>Accepted groups\<close>

lemma distinct_accepted_group_ids: "distinct (map group_id_of (accepted_groups gs))"
proof -
  let ?is = "filter (accepted gs) [0..<length gs]"
  have "inj_on (\<lambda>i. group_id_of (gs ! i)) (set ?is)"
  proof (rule inj_onI)
    fix i j
    assume i: "i \<in> set ?is" and j: "j \<in> set ?is"
      and eq: "group_id_of (gs ! i) = group_id_of (gs ! j)"
    have "\<not> i < j"
      using j eq by (auto simp: accepted_def passes_group_id_check_def)
    moreover have "\<not> j < i"
      using i eq by (auto simp: accepted_def passes_group_id_check_def)
    ultimately show "i = j" by simp
  qed
  then have "distinct (map (\<lambda>i. group_id_of (gs ! i)) ?is)"
    by (simp add: distinct_map)
  then show ?thesis
    by (simp add: accepted_groups_def o_def)
qed

lemma length_accepted_groups:
  "length (accepted_groups gs) = card {i. i < length gs \<and> accepted gs i}"
proof -
  have "{i. i < length [0..<length gs] \<and> accepted gs ([0..<length gs] ! i)} =
        {i. i < length gs \<and> accepted gs i}"
    by auto
  then show ?thesis
    by (simp add: accepted_groups_def length_filter_conv_card)
qed

subsection \<open>Routing files of a run\<close>

text \<open>Every file of a state, the dispatcher apart, holds what \<^verbatim>\<open>write_sort_file\<close> writes.\<close>

lemma routing_item_artifact:
  "\<exists>fallback_action target name.
     content (item_artifact env cfg gid i) = sort_file_content fallback_action target name"
  unfolding item_artifact_def by (metis artifact.select_convs(3))

lemma routing_group_artifact:
  "\<exists>fallback_action target name.
     content (group_artifact env cfg g) = sort_file_content fallback_action target name"
  unfolding group_artifact_def by (metis artifact.select_convs(3))

lemma routing_process_item:
  assumes "list_all routing (files st)"
  shows "list_all routing (files (process_item env cfg gid i st))"
  using assms by (simp add: process_item_eq routing_def routing_item_artifact)

lemma routing_items_forEach:
  "list_all routing (files st) \<Longrightarrow>
   list_all routing (files (items_forEach env cfg gid xs st))"
  by (induction xs arbitrary: st) (simp_all add: routing_process_item)

lemma routing_process_group:
  assumes "list_all routing (files st)"
  shows "list_all routing (files (process_group env cfg g st))"
proof (cases g st rule: process_group_cases)
  case accepted
  have "list_all routing (files (entered env cfg g st))"
    using assms by (simp add: routing_def routing_group_artifact)
  then show ?thesis
    using assms by (simp add: process_group_accepted [OF accepted] routing_items_forEach)
qed (simp_all add: assms process_group_duplicate_id process_group_duplicate_frame
       process_group_invalid)

lemma routing_groups_forEach:
  "list_all routing (files st) \<Longrightarrow>
   list_all routing (files (groups_forEach env cfg gs st))"
  by (induction gs arbitrary: st) (simp_all add: routing_process_group)

lemma routing_compile: "list_all routing (files (compile env cfg))"
proof -
  have "list_all routing (files (groups_forEach env cfg (groups cfg) (initial_state cfg)))"
    by (rule routing_groups_forEach) simp
  then show ?thesis
    by (simp add: compile_def write_dispatcher_eq routing_def dispatcher_artifact_def)
qed

subsection \<open>The disk after a run\<close>




subsection \<open>Inherited property names are short\<close>

lemma inherited_length: "inherited s \<Longrightarrow> length s \<le> 20"
  by (auto simp: inherited_def object_prototype_keys_def)

section \<open>The claims\<close>




text \<open>Claim C2 as stated fails. It says that a later occurrence of an identifier in a group only
  records an error. The group \<^verbatim>\<open>Coal\<close> lists \<^verbatim>\<open>minecraft:coal\<close> twice: the run writes the item
  file twice, appends two dispatch lines and counts two items, with one error.\<close>

theorem duplicate_item_counterexample:
  "items coal_group = Some [''minecraft:coal'', ''minecraft:coal'']
   \<and> accepts (initial_state (plain_config [coal_group])) coal_group
   \<and> thrown (compile bare_fs (plain_config [coal_group])) = None
   \<and> map filename (written ItemFile (compile bare_fs (plain_config [coal_group])))
       = [[''srv'', ''pack'', ''data'', ''mss'', ''function'', ''sort_item_coal.mcfunction''],
          [''srv'', ''pack'', ''data'', ''mss'', ''function'', ''sort_item_coal.mcfunction'']]
   \<and> filter is_dispatch_line (sort_lines (compile bare_fs (plain_config [coal_group])))
       = [dispatch_line ''minecraft:coal'', dispatch_line ''minecraft:coal'']
   \<and> total_items (compile bare_fs (plain_config [coal_group])) = 2
   \<and> errors (compile bare_fs (plain_config [coal_group])) = [DuplicateItemId ''minecraft:coal'']"
  by code_simp

text \<open>Claim C2, amended. For a group that gets past the three checks and whose step ends with
  no write refused, every occurrence of every item of the group, the first and the later
  ones, writes the item file, appends a dispatch line and counts; the occurrences for which
  the test of line 98 holds record one \<^verbatim>\<open>DuplicateItemId\<close> error each in addition.\<close>

theorem every_occurrence_is_emitted:
  assumes "accepts st g" and "thrown (process_group env cfg g st) = None"
  shows "files (process_group env cfg g st) =
           files st @ group_artifact env cfg g
                      # map (item_artifact env cfg (group_id_of g)) (items_of g)
       \<and> sort_lines (process_group env cfg g st) = sort_lines st @ map dispatch_line (items_of g)
       \<and> total_items (process_group env cfg g st) = total_items st + length (items_of g)
       \<and> errors (process_group env cfg g st) =
           errors st @ map DuplicateItemId (repeated (all_item_ids st) (items_of g))"
proof (intro conjI)
  show "files (process_group env cfg g st) =
          files st @ group_artifact env cfg g
                     # map (item_artifact env cfg (group_id_of g)) (items_of g)"
    using assms by (simp add: process_group_files group_output_def)
  show "sort_lines (process_group env cfg g st) = sort_lines st @ map dispatch_line (items_of g)"
    using assms by (simp add: process_group_sort_lines)
  show "total_items (process_group env cfg g st) = total_items st + length (items_of g)"
    using assms by (simp add: process_group_total_items)
  show "errors (process_group env cfg g st) =
          errors st @ map DuplicateItemId (repeated (all_item_ids st) (items_of g))"
    using assms by (rule process_group_accepted_errors)
qed

text \<open>The amended statement of C2 on the group that lists \<^verbatim>\<open>minecraft:coal\<close> twice, run from
  the initial state.\<close>

theorem every_occurrence_is_emitted_witness:
  "accepts (initial_state (plain_config [coal_group])) coal_group
   \<and> thrown (process_group bare_fs (plain_config [coal_group]) coal_group
               (initial_state (plain_config [coal_group]))) = None
   \<and> total_items (process_group bare_fs (plain_config [coal_group]) coal_group
                    (initial_state (plain_config [coal_group])))
       = total_items (initial_state (plain_config [coal_group])) + length (items_of coal_group)
   \<and> length (items_of coal_group) = 2
   \<and> repeated (all_item_ids (initial_state (plain_config [coal_group]))) (items_of coal_group)
       = [''minecraft:coal'']"
proof -
  let ?c = "plain_config [coal_group]"
  have a: "accepts (initial_state ?c) coal_group"
    by code_simp
  have a': "thrown (process_group bare_fs ?c coal_group (initial_state ?c)) = None"
    by code_simp
  have b: "length (items_of coal_group) = 2"
    by code_simp
  have c: "repeated (all_item_ids (initial_state ?c)) (items_of coal_group) = [''minecraft:coal'']"
    by code_simp
  from every_occurrence_is_emitted [OF a a'] a a' b c show ?thesis
    by blast
qed

text \<open>Claim C3 as stated fails, in two ways. The test of line 81 comes before the test of
  line 87: a group with an empty item list whose frame an earlier group has used records
  \<^verbatim>\<open>DuplicateItemFrameId\<close>, not \<^verbatim>\<open>InvalidGroup\<close>. And of two groups without \<^verbatim>\<open>item_frame\<close> the
  second records \<^verbatim>\<open>DuplicateItemFrameId\<close> too, and no \<^verbatim>\<open>InvalidGroup\<close> error.\<close>

theorem invalid_group_counterexample:
  "items gravel_group = Some []
   \<and> passes_group_id_check (groups (plain_config [wood_group, gravel_group])) 1
   \<and> thrown (compile bare_fs (plain_config [wood_group, gravel_group])) = None
   \<and> errors (compile bare_fs (plain_config [wood_group, gravel_group]))
       = [DuplicateItemFrameId ''minecraft:chest'']
   \<and> item_frame sand_group = None
   \<and> passes_group_id_check (groups (plain_config [dirt_group, sand_group])) 1
   \<and> thrown (compile bare_fs (plain_config [dirt_group, sand_group])) = None
   \<and> errors (compile bare_fs (plain_config [dirt_group, sand_group]))
       = [InvalidGroup ''Dirt'', DuplicateItemFrameId ''undefined'']
   \<and> InvalidGroup (group_id_of sand_group)
       \<notin> set (errors (compile bare_fs (plain_config [dirt_group, sand_group])))"
  by code_simp

text \<open>Claim C3, amended. Let the group at position \<open>i\<close> have no items or no \<^verbatim>\<open>item_frame\<close>, let
  it pass the test of line 75, and let the run reach it, no write before it having been
  refused. Then its step writes no file, appends no line, counts no item, refuses no write
  and records exactly one error: \<^verbatim>\<open>InvalidGroup\<close> when the group passes the test of line 81
  too, \<^verbatim>\<open>DuplicateItemFrameId\<close> when it does not. The run goes on with the groups after it.\<close>

theorem incomplete_group_emits_nothing:
  assumes "i < length (groups cfg)"
    and "thrown (state_before env cfg i) = None"
    and "passes_group_id_check (groups cfg) i"
    and "\<not> complete (groups cfg ! i)"
  shows "files (state_after env cfg i) = files (state_before env cfg i)
       \<and> sort_lines (state_after env cfg i) = sort_lines (state_before env cfg i)
       \<and> total_items (state_after env cfg i) = total_items (state_before env cfg i)
       \<and> thrown (state_after env cfg i) = None
       \<and> errors (state_after env cfg i) =
           errors (state_before env cfg i)
           @ [if passes_item_frame_check (groups cfg) i
              then InvalidGroup (group_id_of (groups cfg ! i))
              else DuplicateItemFrameId (target_key (groups cfg ! i))]
       \<and> compile env cfg =
           write_dispatcher env
             (groups_forEach env cfg (drop (Suc i) (groups cfg)) (state_after env cfg i))"
proof -
  let ?g = "groups cfg ! i" and ?st = "state_before env cfg i"
  have id: "\<not> js_in (group_id_of ?g) (all_group_ids ?st)"
    using assms(3) by (simp add: state_before_group_id [OF assms(1,2)])
  have step: "files (state_after env cfg i) = files ?st
       \<and> sort_lines (state_after env cfg i) = sort_lines ?st
       \<and> total_items (state_after env cfg i) = total_items ?st
       \<and> thrown (state_after env cfg i) = None
       \<and> errors (state_after env cfg i) =
           errors ?st
           @ [if passes_item_frame_check (groups cfg) i
              then InvalidGroup (group_id_of ?g)
              else DuplicateItemFrameId (target_key ?g)]"
  proof (cases "passes_item_frame_check (groups cfg) i")
    case True
    then have "\<not> js_in (target_key ?g) (all_item_frame_ids ?st)"
      by (simp add: state_before_item_frame [OF assms(1,2)])
    then show ?thesis
      using True assms(2)
      by (simp add: state_after_def process_group_invalid [OF id _ assms(4)])
  next
    case False
    then have "js_in (target_key ?g) (all_item_frame_ids ?st)"
      using state_before_item_frame [OF assms(1,2)] by blast
    then show ?thesis
      using False assms(2)
      by (simp add: state_after_def process_group_duplicate_frame [OF id])
  qed
  with compile_through_group [OF assms(1,2)] show ?thesis
    by blast
qed

text \<open>The amended statement of C3 on the second of two groups without \<^verbatim>\<open>item_frame\<close>.\<close>

theorem incomplete_group_emits_nothing_witness:
  "(1::nat) < length (groups (plain_config [dirt_group, sand_group]))
   \<and> thrown (state_before bare_fs (plain_config [dirt_group, sand_group]) 1) = None
   \<and> passes_group_id_check (groups (plain_config [dirt_group, sand_group])) 1
   \<and> \<not> complete (groups (plain_config [dirt_group, sand_group]) ! 1)
   \<and> \<not> passes_item_frame_check (groups (plain_config [dirt_group, sand_group])) 1
   \<and> files (state_after bare_fs (plain_config [dirt_group, sand_group]) 1)
       = files (state_before bare_fs (plain_config [dirt_group, sand_group]) 1)
   \<and> errors (state_after bare_fs (plain_config [dirt_group, sand_group]) 1)
       = errors (state_before bare_fs (plain_config [dirt_group, sand_group]) 1)
         @ [DuplicateItemFrameId ''undefined'']"
proof -
  let ?c = "plain_config [dirt_group, sand_group]"
  have a: "(1::nat) < length (groups ?c)" by code_simp
  have a': "thrown (state_before bare_fs ?c 1) = None" by code_simp
  have b: "passes_group_id_check (groups ?c) 1" by code_simp
  have c: "\<not> complete (groups ?c ! 1)" by code_simp
  have d: "\<not> passes_item_frame_check (groups ?c) 1" by code_simp
  have e: "target_key (groups ?c ! 1) = ''undefined''" by code_simp
  from incomplete_group_emits_nothing [OF a a' b c] a a' b c d e show ?thesis
    by simp
qed




text \<open>Claim C5 as stated fails for an identifier with two colons: \<^verbatim>\<open>split(":")[1]\<close> of
  \<^verbatim>\<open>mod:ores:tin\<close> is \<^verbatim>\<open>ores\<close>, the text after the first colon is \<^verbatim>\<open>ores:tin\<close>.\<close>

theorem item_name_substring_counterexample:
  "item_name ''mod:ores:tin'' = Some ''ores''
   \<and> substring_after_first_colon ''mod:ores:tin'' = ''ores:tin''
   \<and> item_name ''mod:ores:tin'' \<noteq> Some (substring_after_first_colon ''mod:ores:tin'')"
  by (simp add: item_name_def substring_after_first_colon_def)

text \<open>Claim C5, amended. The item name is the second \<^verbatim>\<open>:\<close>-segment: the text between the first
  colon and the second one, or up to the end when there is no second colon. For an
  identifier with exactly one colon this is the text after the first colon. The item's file
  name and the function named in its dispatch line are built from this segment.\<close>

theorem item_name_second_segment:
  assumes "CHR '':'' \<notin> set ns" and "CHR '':'' \<notin> set nm"
  shows \<open>item_name (ns @ CHR '':'' # nm) = Some nm
       \<and> item_name (ns @ CHR '':'' # nm) = Some (substring_after_first_colon (ns @ CHR '':'' # nm))
       \<and> item_name (ns @ CHR '':'' # nm @ CHR '':'' # rest) = Some nm
       \<and> item_func_file env (ns @ CHR '':'' # nm @ CHR '':'' # rest) =
           path_join (func_dir env) (''sort_item_'' @ nm @ ''.mcfunction'')
       \<and> dispatch_line (ns @ CHR '':'' # nm @ CHR '':'' # rest) =
           ''execute as @s if entity @s[type=item,nbt={Item:{id:"''
           @ (ns @ CHR '':'' # nm @ CHR '':'' # rest)
           @ ''"}}] run function mss:sort_item_'' @ nm\<close>
  using assms
  by (simp add: item_name_one_colon item_name_more_colons substring_after_first_colon_eq
        item_func_file_def dispatch_line_def js_string_def)

text \<open>The amended statement of C5 on \<^verbatim>\<open>mod:ores\<close> and \<^verbatim>\<open>mod:ores:tin\<close>.\<close>

theorem item_name_second_segment_witness:
  "CHR '':'' \<notin> set ''mod'' \<and> CHR '':'' \<notin> set ''ores''
   \<and> item_name ''mod:ores:tin'' = Some ''ores''
   \<and> item_name ''mod:ores'' = Some ''ores''"
proof -
  have a: "CHR '':'' \<notin> set ''mod''" and b: "CHR '':'' \<notin> set ''ores''" by simp_all
  from item_name_second_segment [OF a b, of "''tin''"] a b show ?thesis by simp
qed

text \<open>Claim C6 as stated fails, for it speaks of every configuration. An effect that holds a
  line break followed by the text of a dispatch line puts a dispatch line into the
  dispatcher file of a configuration without any group. And a run in which a write is
  refused ends before line 114: the group \<^verbatim>\<open>Picks\<close> is accepted, the file of its item
  \<^verbatim>\<open>mod:tools/pickaxe\<close> would lie in a directory that does not exist, and no dispatcher file
  is written.\<close>

theorem dispatch_lines_counterexample:
  "thrown (compile bare_fs echo_config) = None
   \<and> processed_items echo_config = []
   \<and> filter is_dispatch_line
        (lines_of (content (last (written DispatcherFile (compile bare_fs echo_config)))))
       = [dispatch_line ''mod:gold'']
   \<and> accepted (groups (plain_config [picks_group])) 0
   \<and> processed_items (plain_config [picks_group]) = [''mod:tools/pickaxe'', ''mod:shovel'']
   \<and> written DispatcherFile (compile bare_fs (plain_config [picks_group])) = []
   \<and> thrown (compile bare_fs (plain_config [picks_group]))
       = Some (WriteFailed [''srv'', ''pack'', ''data'', ''mss'', ''function'',
                            ''sort_item_tools'', ''pickaxe.mcfunction''])"
  by code_simp

text \<open>Claim C6, amended. In a run in which no write is refused, for a configuration whose group
  names, effects and processed items hold no line break, line 114 writes one dispatcher
  file; its lines are the head of lines 24 to 42 followed by one dispatch line for every
  item of every accepted group, in the order of the configuration. No line of the head is a
  dispatch line, so the dispatch lines of the file are exactly those, and \<^verbatim>\<open>total_items\<close> is
  their number.\<close>

theorem dispatch_lines_in_input_order:
  assumes "thrown (compile env cfg) = None"
    and "list_all no_line_break (dispatcher_inputs cfg)"
  shows "written DispatcherFile (compile env cfg) =
           [\<lparr>origin = DispatcherFile, filename = sort_func_file env,
             content = join [newline] (sort_lines (compile env cfg)) @ [newline]\<rparr>]
       \<and> lines_of (join [newline] (sort_lines (compile env cfg)) @ [newline]) =
           header_lines cfg @ map dispatch_line (processed_items cfg)
       \<and> filter is_dispatch_line
           (lines_of (join [newline] (sort_lines (compile env cfg)) @ [newline])) =
           map dispatch_line (processed_items cfg)
       \<and> total_items (compile env cfg) = length (processed_items cfg)"
proof -
  let ?ls = "header_lines cfg @ map dispatch_line (processed_items cfg)"
  have sl: "sort_lines (compile env cfg) = ?ls"
    using assms(1) by (rule compile_sort_lines)
  have inputs: "\<And>s. s \<in> set (group_names cfg) \<Longrightarrow> newline \<notin> set s"
      "\<And>s. s \<in> set (effects_of cfg) \<Longrightarrow> newline \<notin> set s"
      "\<And>s. s \<in> set (processed_items cfg) \<Longrightarrow> newline \<notin> set s"
    using assms(2) by (simp_all add: dispatcher_inputs_def list_all_iff no_line_break_def)
  have nl: "newline \<notin> set l" if "l \<in> set ?ls" for l
  proof -
    from that consider "l \<in> set (header_lines cfg)"
      | i where "i \<in> set (processed_items cfg)" and "l = dispatch_line i"
      by auto
    then show ?thesis
    proof cases
      case 1
      with inputs(1,2) show ?thesis
        by (rule header_lines_no_line_break)
    next
      case 2
      with inputs(3) show ?thesis
        by (simp add: dispatch_line_no_line_break)
    qed
  qed
  have "?ls \<noteq> []"
    by (simp add: header_lines_not_Nil)
  then have lines: "lines_of (join [newline] ?ls @ [newline]) = ?ls"
    using nl by (rule lines_of_join)
  have w: "written DispatcherFile (compile env cfg) =
           [\<lparr>origin = DispatcherFile, filename = sort_func_file env,
             content = join [newline] (sort_lines (compile env cfg)) @ [newline]\<rparr>]"
    using assms(1) by (simp add: written_DispatcherFile dispatcher_artifact_def)
  have t: "total_items (compile env cfg) = length (processed_items cfg)"
    using assms(1) by (rule compile_total_items)
  from w t lines show ?thesis
    unfolding sl by (simp only: filter_dispatch_lines simp_thms)
qed

text \<open>The amended statement of C6 on four groups of which the first and the last are
  accepted.\<close>

theorem dispatch_lines_in_input_order_witness:
  "thrown (compile bare_fs
      (plain_config [wood_group, tools_group, tools_again_group, coal_group])) = None
   \<and> list_all no_line_break
       (dispatcher_inputs (plain_config [wood_group, tools_group, tools_again_group, coal_group]))
   \<and> filter is_dispatch_line
       (lines_of (join [newline]
          (sort_lines (compile bare_fs
             (plain_config [wood_group, tools_group, tools_again_group, coal_group])))
          @ [newline]))
     = map dispatch_line
         (processed_items (plain_config [wood_group, tools_group, tools_again_group, coal_group]))
   \<and> processed_items (plain_config [wood_group, tools_group, tools_again_group, coal_group])
       = [''minecraft:oak_log'', ''minecraft:coal'', ''minecraft:coal'']"
proof -
  let ?c = "plain_config [wood_group, tools_group, tools_again_group, coal_group]"
  have a: "thrown (compile bare_fs ?c) = None"
    by code_simp
  have b: "list_all no_line_break (dispatcher_inputs ?c)"
    by code_simp
  have c: "processed_items ?c = [''minecraft:oak_log'', ''minecraft:coal'', ''minecraft:coal'']"
    by code_simp
  from dispatch_lines_in_input_order [OF a b] a b c show ?thesis
    by blast
qed

text \<open>Claim C7 as stated fails, for it speaks of every configuration. A group whose name has 300
  letters passes the tests of lines 75, 81 and 87, and line 90 then asks for a file name of
  316 characters, which the directory refuses: one group passes, no group file is written.
  And of the two groups \<^verbatim>\<open>Picks\<close> and \<^verbatim>\<open>Wood\<close> both pass, but the run ends in the items of
  \<^verbatim>\<open>Picks\<close> and writes one group file.\<close>

theorem group_artifacts_counterexample:
  "accepted (groups (plain_config [long_group])) 0
   \<and> written GroupFile (compile bare_fs (plain_config [long_group])) = []
   \<and> thrown (compile bare_fs (plain_config [long_group]))
       = Some (WriteFailed (group_func_file bare_fs (group_id_of long_group)))
   \<and> length (last (group_func_file bare_fs (group_id_of long_group))) = 316
   \<and> map (accepted (groups (plain_config [picks_group, wood_group]))) [0, 1] = [True, True]
   \<and> map filename (written GroupFile (compile bare_fs (plain_config [picks_group, wood_group])))
       = [[''srv'', ''pack'', ''data'', ''mss'', ''function'', ''sort_Picks.mcfunction'']]"
proof -
  have w: "word_char (CHR ''a'')"
    by code_simp
  have g: "group_id_of long_group = replicate 300 (CHR ''a'')"
    using w by (simp add: group_id_of_def long_group_def strip_non_word_def)
  have "\<not> inherited (group_id_of long_group)"
    unfolding g using inherited_length [of "replicate 300 (CHR ''a'')"] by auto
  moreover have "\<not> inherited (target_key long_group)" and "complete long_group"
    by code_simp+
  ultimately have a: "accepted (groups (plain_config [long_group])) 0"
    by (simp add: accepted_def passes_group_id_check_def passes_item_frame_check_def
          plain_config_def)
  have b: "written GroupFile (compile bare_fs (plain_config [long_group])) = []
   \<and> thrown (compile bare_fs (plain_config [long_group]))
       = Some (WriteFailed (group_func_file bare_fs (group_id_of long_group)))
   \<and> length (last (group_func_file bare_fs (group_id_of long_group))) = 316"
    by code_simp
  have c: "map (accepted (groups (plain_config [picks_group, wood_group]))) [0, 1] = [True, True]
   \<and> map filename (written GroupFile (compile bare_fs (plain_config [picks_group, wood_group])))
       = [[''srv'', ''pack'', ''data'', ''mss'', ''function'', ''sort_Picks.mcfunction'']]"
    by code_simp
  from a b c show ?thesis
    by blast
qed

text \<open>Claim C7, amended. In a run in which no write is refused, the group files are those of
  the groups that pass the test of line 75, the test of line 81 and the test of line 87, in
  their order; their number is the number of such positions, and their names are pairwise
  distinct.\<close>

theorem group_artifacts_are_accepted_groups:
  assumes "thrown (compile env cfg) = None"
  shows "written GroupFile (compile env cfg) =
           map (group_artifact env cfg) (accepted_groups (groups cfg))
       \<and> length (written GroupFile (compile env cfg)) =
           card {i. i < length (groups cfg) \<and> accepted (groups cfg) i}
       \<and> distinct (map filename (written GroupFile (compile env cfg)))"
proof (intro conjI)
  show w: "written GroupFile (compile env cfg) =
             map (group_artifact env cfg) (accepted_groups (groups cfg))"
    using assms by (rule written_GroupFile)
  show "length (written GroupFile (compile env cfg)) =
          card {i. i < length (groups cfg) \<and> accepted (groups cfg) i}"
    by (simp add: w length_accepted_groups)
  let ?name = "\<lambda>i. func_dir env @ [''sort_'' @ i @ ''.mcfunction'']"
  have "map filename (written GroupFile (compile env cfg)) =
          map ?name (map group_id_of (accepted_groups (groups cfg)))"
    by (simp add: w group_artifact_def o_def group_func_file_plain)
  moreover have "inj ?name"
    by (rule injI) simp
  ultimately show "distinct (map filename (written GroupFile (compile env cfg)))"
    using distinct_accepted_group_ids [of "groups cfg"]
    by (simp only: distinct_map) (auto simp: inj_on_def)
qed

text \<open>The amended statement of C7 on four groups: the second fails the frame test, the third
  the identifier test.\<close>

theorem group_artifacts_are_accepted_groups_witness:
  "thrown (compile bare_fs
      (plain_config [wood_group, tools_group, tools_again_group, coal_group])) = None
   \<and> length (written GroupFile (compile bare_fs
        (plain_config [wood_group, tools_group, tools_again_group, coal_group])))
     = card {i. i < length (groups (plain_config [wood_group, tools_group, tools_again_group, coal_group]))
               \<and> accepted (groups (plain_config [wood_group, tools_group, tools_again_group, coal_group])) i}
   \<and> map filename (written GroupFile (compile bare_fs
        (plain_config [wood_group, tools_group, tools_again_group, coal_group])))
       = [[''srv'', ''pack'', ''data'', ''mss'', ''function'', ''sort_Wood.mcfunction''],
          [''srv'', ''pack'', ''data'', ''mss'', ''function'', ''sort_Coal.mcfunction'']]
   \<and> map (accepted [wood_group, tools_group, tools_again_group, coal_group]) [0, 1, 2, 3]
       = [True, False, False, True]"
proof -
  let ?c = "plain_config [wood_group, tools_group, tools_again_group, coal_group]"
  have t: "thrown (compile bare_fs ?c) = None"
    by code_simp
  have a: "map filename (written GroupFile (compile bare_fs ?c))
       = [[''srv'', ''pack'', ''data'', ''mss'', ''function'', ''sort_Wood.mcfunction''],
          [''srv'', ''pack'', ''data'', ''mss'', ''function'', ''sort_Coal.mcfunction'']]"
    by code_simp
  have b: "map (accepted [wood_group, tools_group, tools_again_group, coal_group]) [0, 1, 2, 3]
             = [True, False, False, True]"
    by code_simp
  from group_artifacts_are_accepted_groups [OF t] t a b show ?thesis
    by blast
qed

text \<open>Claim C8 as stated fails where it says that every routing file has exactly two lines.
  The target stands in both selectors of the first text and in the selector of the second:
  for an item identifier that holds one line break the item file has five lines.\<close>

theorem routing_artifact_counterexample:
  "length (lines_of (sort_file_content ''kill @s'' (''mod:a'' @ [newline] @ ''b'') None)) = 5
   \<and> thrown (compile bare_fs (plain_config [broken_group])) = None
   \<and> processed_items (plain_config [broken_group]) = [''mod:a'' @ [newline] @ ''b'']
   \<and> map (\<lambda>a. length (lines_of (content a)))
         (written ItemFile (compile bare_fs (plain_config [broken_group]))) = [5]"
  by code_simp

text \<open>Claim C8, amended. When the fallback action, the target and the name hold no line break,
  what \<^verbatim>\<open>write_sort_file\<close> writes has exactly two lines: the first tests \<^verbatim>\<open>if entity\<close> and
  teleports, the second tests \<^verbatim>\<open>unless entity\<close> and runs the fallback action, and both hold
  the same selector \<open>entity_match_selector target name\<close>, which spells the entity kind, the
  identifier, the quoted name when one is set, and the radius. Whatever the game finds for
  that selector, the first line acts exactly when the second does not. Every file of a run
  other than the dispatcher is written this way.\<close>

theorem routing_artifact_two_lines:
  assumes "no_line_break fallback_action" and "no_line_break target"
    and "no_line_break (js_string name)"
  shows \<open>lines_of (sort_file_content fallback_action target name) =
           [branch_line IfEntity (entity_match_selector target name)
              (''teleport @s '' @ entity_dest_selector target name),
            branch_line UnlessEntity (entity_match_selector target name) fallback_action]
       \<and> entity_match_selector target name =
           ''@e[type=minecraft:item_frame,nbt={Item:{id:"'' @ target @ ''"''
           @ (if truthy name
              then '',components:{"minecraft:custom_name":'"'' @ js_string name @ ''"'}''
              else [])
           @ ''}},distance=..128]''
       \<and> branch_acts found IfEntity (entity_match_selector target name)
           = (\<not> branch_acts found UnlessEntity (entity_match_selector target name))
       \<and> list_all routing (files (compile env cfg))\<close>
proof (intro conjI)
  let ?l1 = "branch_line IfEntity (entity_match_selector target name)
               (''teleport @s '' @ entity_dest_selector target name)"
  let ?l2 = "branch_line UnlessEntity (entity_match_selector target name) fallback_action"
  from assms have s: "newline \<notin> set (entity_match_selector target name)"
      "newline \<notin> set (entity_dest_selector target name)"
    by (simp_all add: newline_not_in_selectors no_line_break_def)
  have n1: "newline \<notin> set ?l1"
    using s newline_not_in_literals by (simp add: branch_line_def)
  have n2: "newline \<notin> set ?l2"
    using s assms(1) newline_not_in_literals by (simp add: branch_line_def no_line_break_def)
  have "sort_file_content fallback_action target name = ?l1 @ [newline] @ ?l2 @ [newline]"
    by (simp add: sort_file_content_def branch_line_def)
  then show "lines_of (sort_file_content fallback_action target name) = [?l1, ?l2]"
    using lines_of_two [OF n1 n2] by simp
  show \<open>entity_match_selector target name =
           ''@e[type=minecraft:item_frame,nbt={Item:{id:"'' @ target @ ''"''
           @ (if truthy name
              then '',components:{"minecraft:custom_name":'"'' @ js_string name @ ''"'}''
              else [])
           @ ''}},distance=..128]''\<close>
    by (simp add: entity_match_selector_def name_selector_def)
  show "branch_acts found IfEntity (entity_match_selector target name)
           = (\<not> branch_acts found UnlessEntity (entity_match_selector target name))"
    by (simp add: branch_acts_def)
  show "list_all routing (files (compile env cfg))"
    by (rule routing_compile)
qed

text \<open>The amended statement of C8 for a frame \<^verbatim>\<open>minecraft:chest\<close> with the name \<^verbatim>\<open>Wood\<close>.\<close>

theorem routing_artifact_two_lines_witness:
  \<open>no_line_break ''kill @s'' \<and> no_line_break ''minecraft:chest''
   \<and> no_line_break (js_string (Some ''Wood''))
   \<and> lines_of (sort_file_content ''kill @s'' ''minecraft:chest'' (Some ''Wood'')) =
       [''execute as @s if entity @e[type=minecraft:item_frame,nbt={Item:{id:"minecraft:chest",components:{"minecraft:custom_name":'"Wood"'}}},distance=..128] run teleport @s @e[limit=1,sort=nearest,type=minecraft:item_frame,nbt={Item:{id:"minecraft:chest",components:{"minecraft:custom_name":'"Wood"'}}},distance=..128]'',
        ''execute as @s unless entity @e[type=minecraft:item_frame,nbt={Item:{id:"minecraft:chest",components:{"minecraft:custom_name":'"Wood"'}}},distance=..128] run kill @s'']\<close>
proof -
  have a: "no_line_break ''kill @s''" and b: "no_line_break ''minecraft:chest''"
    and c: "no_line_break (js_string (Some ''Wood''))"
    by code_simp+
  have d: \<open>[branch_line IfEntity (entity_match_selector ''minecraft:chest'' (Some ''Wood''))
              (''teleport @s '' @ entity_dest_selector ''minecraft:chest'' (Some ''Wood'')),
            branch_line UnlessEntity (entity_match_selector ''minecraft:chest'' (Some ''Wood''))
              ''kill @s''] =
       [''execute as @s if entity @e[type=minecraft:item_frame,nbt={Item:{id:"minecraft:chest",components:{"minecraft:custom_name":'"Wood"'}}},distance=..128] run teleport @s @e[limit=1,sort=nearest,type=minecraft:item_frame,nbt={Item:{id:"minecraft:chest",components:{"minecraft:custom_name":'"Wood"'}}},distance=..128]'',
        ''execute as @s unless entity @e[type=minecraft:item_frame,nbt={Item:{id:"minecraft:chest",components:{"minecraft:custom_name":'"Wood"'}}},distance=..128] run kill @s'']\<close>
    by code_simp
  note t = routing_artifact_two_lines [OF a b c]
  from t [THEN conjunct1] a b c show ?thesis
    unfolding d by blast
qed




end
